theory Spec2Isabelle
  imports Main
begin

section \<open>Python values, strings and dictionaries\<close>

text \<open>
  The schemas of \<^verbatim>\<open>customerSchemas.py\<close> work on JSON-like request bodies and on
  model instances. A Python value is one of the JSON shapes, a datetime (carried as its
  ISO text) or an object with named attributes. A dict keeps its items in insertion
  order, so it is an association list; a well-formed dict has no key twice.
  A \<^typ>\<open>char\<close> stands for one code point (below 256) of a Python \<^verbatim>\<open>str\<close>.
\<close>

datatype pyval =
    NoneV
  | BoolV bool
  | IntV int
  | Str string
  | DateTimeV string
  | ListV "pyval list"
  | DictV "(string \<times> pyval) list"
  | ObjV "(string \<times> pyval) list"

type_synonym dict = "(string \<times> pyval) list"

definition wf_dict :: "dict \<Rightarrow> bool" where
  "wf_dict d = distinct (map fst d)"

text \<open>\<^verbatim>\<open>isinstance(v, str)\<close> and \<^verbatim>\<open>isinstance(v, dict)\<close>.\<close>

fun is_str :: "pyval \<Rightarrow> bool" where
  "is_str (Str s) = True"
| "is_str v = False"

fun is_dict :: "pyval \<Rightarrow> bool" where
  "is_dict (DictV d) = True"
| "is_dict v = False"

text \<open>Python truthiness (\<^verbatim>\<open>if v:\<close>).\<close>

fun truthy :: "pyval \<Rightarrow> bool" where
  "truthy NoneV = False"
| "truthy (BoolV b) = b"
| "truthy (IntV i) = (i \<noteq> 0)"
| "truthy (Str s) = (s \<noteq> [])"
| "truthy (DateTimeV t) = True"
| "truthy (ListV xs) = (xs \<noteq> [])"
| "truthy (DictV d) = (d \<noteq> [])"
| "truthy (ObjV a) = True"

text \<open>
  \<^verbatim>\<open>str.isspace\<close> on one code point below 256: TAB to CR, FS to US, space, NEL and
  the no-break space.
\<close>

definition isspace :: "char \<Rightarrow> bool" where
  "isspace c = (let n = (of_char c :: nat) in
     (9 \<le> n \<and> n \<le> 13) \<or> (28 \<le> n \<and> n \<le> 32) \<or> n = 133 \<or> n = 160)"

text \<open>\<^verbatim>\<open>s.strip()\<close>: drop the whitespace at both ends.\<close>

definition strip :: "string \<Rightarrow> string" where
  "strip s = rev (dropWhile isspace (rev (dropWhile isspace s)))"

text \<open>\<^verbatim>\<open>s.startswith(p)\<close>.\<close>

definition startswith :: "string \<Rightarrow> string \<Rightarrow> bool" where
  "startswith s p = (take (length p) s = p)"

text \<open>\<^verbatim>\<open>d[k] = v\<close>: replace the value of an existing key in place, or append a new item.\<close>

fun setitem :: "dict \<Rightarrow> string \<Rightarrow> pyval \<Rightarrow> dict" where
  "setitem [] k v = [(k, v)]"
| "setitem ((k', v') # d) k v = (if k' = k then (k, v) # d else (k', v') # setitem d k v)"

text \<open>\<^verbatim>\<open>d.get(k)\<close> with \<open>None\<close> for a missing key, and \<^verbatim>\<open>k in d\<close>.\<close>

definition getitem :: "dict \<Rightarrow> string \<Rightarrow> pyval option" where
  "getitem d k = map_of d k"

definition keys :: "dict \<Rightarrow> string list" where
  "keys d = map fst d"

section \<open>Errors\<close>

text \<open>
  The violation messages of the validation library, as templates with their parameters:
  \<^item> \<open>MissingRequired\<close>: \<^verbatim>\<open>Missing data for required field.\<close>
  \<^item> \<open>NullField\<close>: \<^verbatim>\<open>Field may not be null.\<close>
  \<^item> \<open>InvalidString\<close>: \<^verbatim>\<open>Not a valid string.\<close>
  \<^item> \<open>InvalidEmail\<close>: \<^verbatim>\<open>Not a valid email address.\<close>
  \<^item> \<open>TooShort n\<close>: \<^verbatim>\<open>Shorter than minimum length n.\<close>
  \<^item> \<open>TooLong n\<close>: \<^verbatim>\<open>Longer than maximum length n.\<close>
  \<^item> \<open>LengthBetween m n\<close>: \<^verbatim>\<open>Length must be between m and n.\<close>
  \<^item> \<open>UnknownField\<close>: \<^verbatim>\<open>Unknown field.\<close>
  \<^item> \<open>InvalidInputType\<close>: \<^verbatim>\<open>Invalid input type.\<close> (under the key \<^verbatim>\<open>_schema\<close>)
  \<^item> \<open>NotLoadable\<close>: a field class whose deserialisation is outside this file (no
    loadable field of the schemas declared here has one).
\<close>

datatype msg =
    MissingRequired
  | NullField
  | InvalidString
  | InvalidEmail
  | TooShort nat
  | TooLong nat
  | LengthBetween nat nat
  | UnknownField
  | InvalidInputType
  | NotLoadable

datatype exn = AttributeError | TypeError | ValueError

text \<open>
  A \<open>ValidationError\<close> carries a mapping from field name to the list of violation
  messages; any other Python exception is \<open>Raised\<close>.
\<close>

datatype error = ValidationError "(string \<times> msg list) list" | Raised exn

section \<open>The pre-load hook\<close>

type_synonym heap = "nat \<Rightarrow> pyval"

text \<open>
  \<^verbatim>\<open>process_input\<close> receives the caller's object and returns the same object. The
  object is addressed in a heap so that the assignment \<^verbatim>\<open>data[key] = value.strip()\<close>
  is visible through every reference to it. The loop visits the items of the dict as
  they were when it started; an assignment replaces the value of a key that is
  already there, so no item is added or removed while iterating.
\<close>

fun process_input_loop :: "dict \<Rightarrow> nat \<Rightarrow> heap \<Rightarrow> heap" where
  "process_input_loop [] data h = h"
| "process_input_loop ((key, value) # items) data h =
     process_input_loop items data
       (case value of
          Str s \<Rightarrow>
            (if key \<noteq> ''password''
             then (case h data of
                     DictV d \<Rightarrow> h(data := DictV (setitem d key (Str (strip s))))
                   | _ \<Rightarrow> h)
             else h)
        | _ \<Rightarrow> h)"

definition process_input :: "heap \<Rightarrow> nat \<Rightarrow> heap \<times> nat" where
  "process_input h data =
     (case h data of
        DictV d \<Rightarrow> (process_input_loop d data h, data)
      | _ \<Rightarrow> (h, data))"

section \<open>The post-load hook\<close>

text \<open>
  The nested helper \<^verbatim>\<open>_hash(raw_pw)\<close>. \<open>hashpw pw salt\<close> stands for
  \<^verbatim>\<open>bcrypt.hashpw(pw.encode('utf-8'), salt).decode('utf-8')\<close> and \<open>salt\<close> for the
  value \<^verbatim>\<open>bcrypt.gensalt()\<close> draws in this call: the hashing primitive and its source
  of randomness are outside the repository.
\<close>

definition hash_helper :: "(string \<Rightarrow> string \<Rightarrow> string) \<Rightarrow> string \<Rightarrow> pyval \<Rightarrow> error + pyval" where
  "hash_helper hashpw salt raw_pw =
     (if \<not> truthy raw_pw then Inr raw_pw
      else case raw_pw of
        Str s \<Rightarrow> if startswith s ''$2'' then Inr raw_pw else Inr (Str (hashpw s salt))
      | _ \<Rightarrow> Inl (Raised AttributeError))"

text \<open>
  \<^verbatim>\<open>hash_password\<close>: the branch for a model instance (\<^verbatim>\<open>hasattr\<close>, attribute
  assignment) and the branch for a dict.
\<close>

definition hash_password :: "(string \<Rightarrow> string \<Rightarrow> string) \<Rightarrow> string \<Rightarrow> pyval \<Rightarrow> error + pyval" where
  "hash_password hashpw salt data =
     (if \<not> is_dict data then
        (case data of
           ObjV a \<Rightarrow>
             (case getitem a ''password'' of
                Some pw \<Rightarrow>
                  (if truthy pw
                   then (case hash_helper hashpw salt pw of
                           Inl e \<Rightarrow> Inl e
                         | Inr hashed \<Rightarrow> Inr (ObjV (setitem a ''password'' hashed)))
                   else Inr data)
              | None \<Rightarrow> Inr data)
         | _ \<Rightarrow> Inr data)
      else
        (case data of
           DictV d \<Rightarrow>
             (case getitem d ''password'' of
                Some pw \<Rightarrow>
                  (if truthy pw
                   then (case hash_helper hashpw salt pw of
                           Inl e \<Rightarrow> Inl e
                         | Inr hashed \<Rightarrow> Inr (DictV (setitem d ''password'' hashed)))
                   else Inr data)
              | None \<Rightarrow> Inr data)
         | _ \<Rightarrow> Inr data))"

section \<open>Field and schema declarations\<close>

text \<open>
  A field declaration of the source is data: the field class, \<^verbatim>\<open>required\<close>,
  \<^verbatim>\<open>load_only\<close>, \<^verbatim>\<open>dump_only\<close> and the validators. A nested field carries the
  fields of the nested schema and its \<^verbatim>\<open>exclude\<close> tuple (all nested fields of this
  file have \<^verbatim>\<open>many=True\<close>).
\<close>

datatype validator = Length "nat option" "nat option"

datatype fkind =
    String_f
  | Email_f
  | Integer_f
  | DateTime_f
  | Nested_f "field list" "string list"
and field =
    Field (fname: string) (kind: fkind) (required: bool) (load_only: bool)
      (dump_only: bool) (validate: "validator list")

text \<open>
  A schema instance: the declared fields of its class and the options given to the
  constructor.
\<close>

record schema =
  declared_fields :: "field list"
  exclude :: "string list"
  many :: bool

text \<open>
  \<^verbatim>\<open>class CustomerSchema\<close>. The nested \<^verbatim>\<open>ServiceTicketSchema\<close> is declared in
  another module; its fields are the parameter \<open>ticket\<close>. The model class
  \<^verbatim>\<open>Customer\<close> is declared in another module as well; its columns are those of the
  data model of the specification, each of which has a field declared here, so the
  schema has no field besides the declared ones.
\<close>

definition CustomerSchema :: "field list \<Rightarrow> field list" where
  "CustomerSchema ticket =
    [Field ''first_name'' String_f True False False [Length (Some 1) (Some 50)],
     Field ''last_name'' String_f True False False [Length (Some 1) (Some 50)],
     Field ''email'' Email_f True False False [],
     Field ''password'' String_f True True False [Length (Some 6) None],
     Field ''phone'' String_f False False False [Length None (Some 20)],
     Field ''address'' String_f False False False [Length None (Some 200)],
     Field ''id'' Integer_f False False True [],
     Field ''created_at'' DateTime_f False False True [],
     Field ''service_tickets'' (Nested_f ticket [''customer'']) False False True []]"

text \<open>\<^verbatim>\<open>class LoginSchema\<close>.\<close>

definition LoginSchema :: "field list" where
  "LoginSchema =
    [Field ''email'' Email_f True False False [],
     Field ''password'' String_f True False False [Length (Some 6) None]]"

text \<open>The schema instances at the end of the module.\<close>

definition customer_schema :: "field list \<Rightarrow> schema" where
  "customer_schema ticket = \<lparr>declared_fields = CustomerSchema ticket, exclude = [], many = False\<rparr>"

definition customers_schema :: "field list \<Rightarrow> schema" where
  "customers_schema ticket = \<lparr>declared_fields = CustomerSchema ticket, exclude = [], many = True\<rparr>"

definition customer_simple_schema :: "field list \<Rightarrow> schema" where
  "customer_simple_schema ticket =
     \<lparr>declared_fields = CustomerSchema ticket, exclude = [''service_tickets'', ''password''], many = False\<rparr>"

definition customers_simple_schema :: "field list \<Rightarrow> schema" where
  "customers_simple_schema ticket =
     \<lparr>declared_fields = CustomerSchema ticket, exclude = [''service_tickets'', ''password''], many = True\<rparr>"

definition login_schema :: schema where
  "login_schema = \<lparr>declared_fields = LoginSchema, exclude = [], many = False\<rparr>"

section \<open>Loading\<close>

text \<open>
  \<^verbatim>\<open>validate.Length(min, max)\<close> called on a string: the lower bound is checked first, and
  the message names both bounds when both are given.
\<close>

definition Length_call :: "nat option \<Rightarrow> nat option \<Rightarrow> string \<Rightarrow> msg list" where
  "Length_call mn mx value =
     (case mn of
        Some lo \<Rightarrow>
          (if length value < lo
           then [case mx of None \<Rightarrow> TooShort lo | Some hi \<Rightarrow> LengthBetween lo hi]
           else (case mx of
                   Some hi \<Rightarrow> if hi < length value then [LengthBetween lo hi] else []
                 | None \<Rightarrow> []))
      | None \<Rightarrow>
          (case mx of
             Some hi \<Rightarrow> if hi < length value then [TooLong hi] else []
           | None \<Rightarrow> []))"

fun run_validator :: "validator \<Rightarrow> string \<Rightarrow> msg list" where
  "run_validator (Length mn mx) value = Length_call mn mx value"

text \<open>All validators of a field run, and their messages are collected.\<close>

definition run_validators :: "validator list \<Rightarrow> string \<Rightarrow> msg list" where
  "run_validators vs value = concat (map (\<lambda>v. run_validator v value) vs)"

definition validated :: "msg list \<Rightarrow> pyval \<Rightarrow> msg list + pyval" where
  "validated errs v = (if errs = [] then Inr v else Inl errs)"

text \<open>
  Deserialising a present, non-null value. A string field accepts a \<^verbatim>\<open>str\<close> only. An
  email field is a string field whose first validator is the email syntax check
  \<open>email_ok\<close> (the regular expressions of the validation library, a parameter here)
  and whose type error has the email message.
\<close>

fun deserialize_value :: "(string \<Rightarrow> bool) \<Rightarrow> fkind \<Rightarrow> validator list \<Rightarrow> pyval \<Rightarrow> msg list + pyval" where
  "deserialize_value email_ok String_f vs (Str s) = validated (run_validators vs s) (Str s)"
| "deserialize_value email_ok String_f vs v = Inl [InvalidString]"
| "deserialize_value email_ok Email_f vs (Str s) =
     validated ((if email_ok s then [] else [InvalidEmail]) @ run_validators vs s) (Str s)"
| "deserialize_value email_ok Email_f vs v = Inl [InvalidEmail]"
| "deserialize_value email_ok k vs v = Inl [NotLoadable]"

text \<open>
  \<^verbatim>\<open>Field.deserialize\<close>: a missing value is an error for a required field and is left
  out otherwise; \<^verbatim>\<open>None\<close> is refused (no field here allows it).
\<close>

fun deserialize :: "(string \<Rightarrow> bool) \<Rightarrow> field \<Rightarrow> pyval option \<Rightarrow> msg list + pyval option" where
  "deserialize email_ok f None = (if required f then Inl [MissingRequired] else Inr None)"
| "deserialize email_ok f (Some NoneV) = Inl [NullField]"
| "deserialize email_ok f (Some v) =
     (case deserialize_value email_ok (kind f) (validate f) v of
        Inl e \<Rightarrow> Inl e
      | Inr v' \<Rightarrow> Inr (Some v'))"

text \<open>The fields a schema instance loads: not \<^verbatim>\<open>dump_only\<close>, not excluded.\<close>

definition load_fields :: "schema \<Rightarrow> field list" where
  "load_fields sch = filter (\<lambda>f. \<not> dump_only f \<and> fname f \<notin> set (exclude sch)) (declared_fields sch)"

text \<open>
  One pass over the load fields: the errors by field name, and the deserialised values
  of the fields without error.
\<close>

fun deserialize_fields :: "(string \<Rightarrow> bool) \<Rightarrow> field list \<Rightarrow> dict \<Rightarrow> (string \<times> msg list) list \<times> dict" where
  "deserialize_fields email_ok [] data = ([], [])"
| "deserialize_fields email_ok (f # fs) data =
     (case deserialize_fields email_ok fs data of
        (errs, ret) \<Rightarrow>
          (case deserialize email_ok f (getitem data (fname f)) of
             Inl e \<Rightarrow> ((fname f, e) # errs, ret)
           | Inr None \<Rightarrow> (errs, ret)
           | Inr (Some v) \<Rightarrow> (errs, (fname f, v) # ret)))"

text \<open>Keys of the input that no load field has are refused (\<^verbatim>\<open>unknown = RAISE\<close>).\<close>

definition unknown_errors :: "field list \<Rightarrow> dict \<Rightarrow> (string \<times> msg list) list" where
  "unknown_errors fs data =
     map (\<lambda>k. (k, [UnknownField])) (filter (\<lambda>k. k \<notin> set (map fname fs)) (keys data))"

definition schema_deserialize :: "(string \<Rightarrow> bool) \<Rightarrow> schema \<Rightarrow> pyval \<Rightarrow> (string \<times> msg list) list \<times> pyval" where
  "schema_deserialize email_ok sch data =
     (case data of
        DictV d \<Rightarrow>
          (case deserialize_fields email_ok (load_fields sch) d of
             (errs, ret) \<Rightarrow> (errs @ unknown_errors (load_fields sch) d, DictV ret))
      | _ \<Rightarrow> ([(''_schema'', [InvalidInputType])], DictV []))"

text \<open>
  \<^verbatim>\<open>Schema.load\<close> of one object by a schema without hooks and without \<^verbatim>\<open>many\<close>
  (the login schema).
\<close>

definition schema_load :: "(string \<Rightarrow> bool) \<Rightarrow> schema \<Rightarrow> pyval \<Rightarrow> error + pyval" where
  "schema_load email_ok sch data =
     (case schema_deserialize email_ok sch data of
        (errs, result) \<Rightarrow> if errs \<noteq> [] then Inl (ValidationError errs) else Inr result)"

text \<open>
  With \<^verbatim>\<open>load_instance = True\<close> the base class has a post-load hook of its own that
  builds the model instance from the loaded dict (\<^verbatim>\<open>Customer(**data)\<close>).
\<close>

definition make_instance :: "pyval \<Rightarrow> pyval" where
  "make_instance data = (case data of DictV d \<Rightarrow> ObjV d | _ \<Rightarrow> data)"

text \<open>
  The two post-load hooks run in an order the source does not fix (its docstring:
  ``\<^verbatim>\<open>data\<close> may be either a dict or a model instance''), so the order is a parameter.
\<close>

datatype hook_order = HashThenInstance | InstanceThenHash

definition post_load :: "(string \<Rightarrow> string \<Rightarrow> string) \<Rightarrow> string \<Rightarrow> hook_order \<Rightarrow> pyval \<Rightarrow> error + pyval" where
  "post_load hashpw salt order data =
     (case order of
        HashThenInstance \<Rightarrow>
          (case hash_password hashpw salt data of
             Inl e \<Rightarrow> Inl e
           | Inr data' \<Rightarrow> Inr (make_instance data'))
      | InstanceThenHash \<Rightarrow> hash_password hashpw salt (make_instance data))"

text \<open>
  The load of one object by an instance of \<^verbatim>\<open>CustomerSchema\<close>, that is
  \<^verbatim>\<open>sch.load(data, many=False)\<close>: the pre-load hook on the caller's object, the
  deserialisation and validation of what the hook returned, and, when there is no error,
  the post-load hooks. The result comes with the heap the caller sees afterwards.
  For an instance constructed without \<^verbatim>\<open>many\<close> (\<^verbatim>\<open>customer_schema\<close>,
  \<^verbatim>\<open>customer_simple_schema\<close>) this is \<^verbatim>\<open>sch.load(data)\<close>. The load of a
  collection by an instance with \<^verbatim>\<open>many=True\<close>, where the hooks are called once
  per element and a salt is drawn per element, is not modelled: \<open>Load\<close> does not read
  \<open>many\<close>, and every property of \<open>Load\<close> below is stated for instances without
  \<^verbatim>\<open>many\<close> only.
\<close>

definition load_processed ::
  "(string \<Rightarrow> bool) \<Rightarrow> (string \<Rightarrow> string \<Rightarrow> string) \<Rightarrow> string \<Rightarrow> hook_order \<Rightarrow> schema
    \<Rightarrow> pyval \<Rightarrow> error + pyval" where
  "load_processed email_ok hashpw salt order sch processed_data =
     (case schema_deserialize email_ok sch processed_data of
        (errs, result) \<Rightarrow>
          (if errs \<noteq> [] then Inl (ValidationError errs)
           else post_load hashpw salt order result))"

definition Load ::
  "(string \<Rightarrow> bool) \<Rightarrow> (string \<Rightarrow> string \<Rightarrow> string) \<Rightarrow> string \<Rightarrow> hook_order \<Rightarrow> schema
    \<Rightarrow> heap \<Rightarrow> nat \<Rightarrow> (error + pyval) \<times> heap" where
  "Load email_ok hashpw salt order sch h data =
     (case process_input h data of
        (h', processed) \<Rightarrow>
          (load_processed email_ok hashpw salt order sch (h' processed), h'))"

section \<open>Dumping\<close>

text \<open>
  \<^verbatim>\<open>get_value\<close>: the attribute of an object or the item of a dict; any other value
  has none of the attributes asked for, and the field is left out of the output.
\<close>

definition get_value :: "pyval \<Rightarrow> string \<Rightarrow> pyval option" where
  "get_value obj attr =
     (case obj of ObjV a \<Rightarrow> getitem a attr | DictV d \<Rightarrow> getitem d attr | _ \<Rightarrow> None)"

text \<open>
  Serialising one attribute value by the field's class. \<^verbatim>\<open>None\<close> stays \<^verbatim>\<open>None\<close>.
  A value of the field's own type is emitted as it is (a datetime as its ISO text,
  a list under a nested field as the list of the nested dumps). For a value of another
  type Python coerces dynamically (\<^verbatim>\<open>str()\<close>, \<^verbatim>\<open>int()\<close>, \<^verbatim>\<open>isoformat\<close>, iteration);
  that is the parameter \<open>coerce\<close>, which gives a value or raises a Python exception.

  \<open>dump_fields\<close> is the loop of one object's dump over the declared fields: a field is
  skipped when it is \<^verbatim>\<open>load_only\<close> or excluded, and when the object has no such
  attribute.
\<close>

fun serialize :: "(fkind \<Rightarrow> pyval \<Rightarrow> exn + pyval) \<Rightarrow> fkind \<Rightarrow> pyval \<Rightarrow> error + pyval"
and dump_fields :: "(fkind \<Rightarrow> pyval \<Rightarrow> exn + pyval) \<Rightarrow> field list \<Rightarrow> string list \<Rightarrow> pyval \<Rightarrow> error + dict"
and dump_list :: "(fkind \<Rightarrow> pyval \<Rightarrow> exn + pyval) \<Rightarrow> field list \<Rightarrow> string list \<Rightarrow> pyval list \<Rightarrow> error + pyval list"
where
  "serialize coerce k NoneV = Inr NoneV"
| "serialize coerce String_f (Str s) = Inr (Str s)"
| "serialize coerce Email_f (Str s) = Inr (Str s)"
| "serialize coerce Integer_f (IntV i) = Inr (IntV i)"
| "serialize coerce DateTime_f (DateTimeV t) = Inr (Str t)"
| "serialize coerce (Nested_f fs ex) (ListV xs) =
     (case dump_list coerce fs ex xs of Inl e \<Rightarrow> Inl e | Inr ds \<Rightarrow> Inr (ListV ds))"
| "serialize coerce k v =
     (case coerce k v of Inl x \<Rightarrow> Inl (Raised x) | Inr v' \<Rightarrow> Inr v')"
| "dump_fields coerce [] ex obj = Inr []"
| "dump_fields coerce (Field name k rq lo dn vs # fs) ex obj =
     (if lo \<or> name \<in> set ex then dump_fields coerce fs ex obj
      else case get_value obj name of
        None \<Rightarrow> dump_fields coerce fs ex obj
      | Some v \<Rightarrow>
          (case serialize coerce k v of
             Inl e \<Rightarrow> Inl e
           | Inr v' \<Rightarrow>
               (case dump_fields coerce fs ex obj of
                  Inl e \<Rightarrow> Inl e
                | Inr d \<Rightarrow> Inr ((name, v') # d))))"
| "dump_list coerce fs ex [] = Inr []"
| "dump_list coerce fs ex (x # xs) =
     (case dump_fields coerce fs ex x of
        Inl e \<Rightarrow> Inl e
      | Inr d \<Rightarrow>
          (case dump_list coerce fs ex xs of
             Inl e \<Rightarrow> Inl e
           | Inr ds \<Rightarrow> Inr (DictV d # ds)))"

text \<open>
  \<^verbatim>\<open>schema.dump(obj)\<close>: with \<^verbatim>\<open>many\<close> the object is a collection and each element is
  dumped, as under a nested field.
\<close>

definition Dump :: "(fkind \<Rightarrow> pyval \<Rightarrow> exn + pyval) \<Rightarrow> schema \<Rightarrow> pyval \<Rightarrow> error + pyval" where
  "Dump coerce sch obj =
     (if many sch \<and> obj \<noteq> NoneV
      then serialize coerce (Nested_f (declared_fields sch) (exclude sch)) obj
      else case dump_fields coerce (declared_fields sch) (exclude sch) obj of
             Inl e \<Rightarrow> Inl e
           | Inr d \<Rightarrow> Inr (DictV d))"

section \<open>Specification-level definitions\<close>

text \<open>
  Step 1 of the specified Load, in the specification's words: every string-valued field
  except \<^verbatim>\<open>password\<close> is replaced by its whitespace-trimmed form, and every other
  value passes through unchanged.
\<close>

fun normalize_item :: "string \<times> pyval \<Rightarrow> string \<times> pyval" where
  "normalize_item (k, Str s) = (k, if k \<noteq> ''password'' then Str (strip s) else Str s)"
| "normalize_item (k, v) = (k, v)"

definition normalize :: "dict \<Rightarrow> dict" where
  "normalize d = map normalize_item d"

text \<open>
  Sample instances of the external parameters, used to evaluate the model on concrete
  inputs: an email check that asks for an \<^verbatim>\<open>@\<close>, a hashing primitive whose output
  carries the algorithm marker, the salt and the password, and a coercion that always
  raises.
\<close>

definition sample_email_ok :: "string \<Rightarrow> bool" where
  "sample_email_ok s = (CHR ''@'' \<in> set s)"

definition sample_hashpw :: "string \<Rightarrow> string \<Rightarrow> string" where
  "sample_hashpw pw salt = ''$2b$'' @ salt @ ''$'' @ pw"

definition sample_coerce :: "fkind \<Rightarrow> pyval \<Rightarrow> exn + pyval" where
  "sample_coerce k v = Inl TypeError"

definition sample_heap :: "pyval \<Rightarrow> heap" where
  "sample_heap v = (\<lambda>a. NoneV)(0 := v)"

text \<open>
  The field constraints of the specification's data model, in its words:
  \<^verbatim>\<open>first_name\<close> and \<^verbatim>\<open>last_name\<close> are required strings of length 1 to 50,
  \<^verbatim>\<open>email\<close> is a required string of email syntax, \<^verbatim>\<open>password\<close> is a required string
  of at least 6 characters, \<^verbatim>\<open>phone\<close> is an optional string of at most 20 and
  \<^verbatim>\<open>address\<close> an optional string of at most 200 characters. \<open>meets req P v\<close>: the
  value \<open>v\<close> of a field (\<open>None\<close> when the field is omitted) is a string that satisfies
  \<open>P\<close>, or is omitted and not required.
\<close>

fun meets :: "bool \<Rightarrow> (string \<Rightarrow> bool) \<Rightarrow> pyval option \<Rightarrow> bool" where
  "meets req P None = (\<not> req)"
| "meets req P (Some (Str s)) = P s"
| "meets req P (Some v) = False"

definition spec_constraint :: "(string \<Rightarrow> bool) \<Rightarrow> string \<Rightarrow> pyval option \<Rightarrow> bool" where
  "spec_constraint email_ok name v =
     (if name = ''first_name'' \<or> name = ''last_name''
        then meets True (\<lambda>s. 1 \<le> length s \<and> length s \<le> 50) v
      else if name = ''email'' then meets True email_ok v
      else if name = ''password'' then meets True (\<lambda>s. 6 \<le> length s) v
      else if name = ''phone'' then meets False (\<lambda>s. length s \<le> 20) v
      else if name = ''address'' then meets False (\<lambda>s. length s \<le> 200) v
      else True)"

text \<open>
  A well-formed record for a schema: every attribute the schema dumps is absent,
  \<^verbatim>\<open>None\<close> or of the type of its field (a string for a string or email field, an
  integer, a datetime, and under a nested field a list of records well-formed for the
  nested schema). A well-formed customer record is a model instance of that kind.
\<close>

fun conforms_value :: "fkind \<Rightarrow> pyval \<Rightarrow> bool"
and conforms_fields :: "field list \<Rightarrow> string list \<Rightarrow> pyval \<Rightarrow> bool"
and conforms_list :: "field list \<Rightarrow> string list \<Rightarrow> pyval list \<Rightarrow> bool"
where
  "conforms_value k NoneV = True"
| "conforms_value String_f (Str s) = True"
| "conforms_value Email_f (Str s) = True"
| "conforms_value Integer_f (IntV i) = True"
| "conforms_value DateTime_f (DateTimeV t) = True"
| "conforms_value (Nested_f fs ex) (ListV xs) = conforms_list fs ex xs"
| "conforms_value k v = False"
| "conforms_fields [] ex obj = True"
| "conforms_fields (Field name k rq lo dn vs # fs) ex obj =
     ((lo \<or> name \<in> set ex
        \<or> (case get_value obj name of None \<Rightarrow> True | Some v \<Rightarrow> conforms_value k v))
      \<and> conforms_fields fs ex obj)"
| "conforms_list fs ex [] = True"
| "conforms_list fs ex (x # xs) = (conforms_fields fs ex x \<and> conforms_list fs ex xs)"

definition well_formed :: "field list \<Rightarrow> pyval \<Rightarrow> bool" where
  "well_formed ticket r =
     (case r of ObjV a \<Rightarrow> conforms_fields (CustomerSchema ticket) [] r | _ \<Rightarrow> False)"

text \<open>A sample ticket schema and a sample customer record with one ticket.\<close>

definition sample_ticket :: "field list" where
  "sample_ticket =
    [Field ''id'' Integer_f False False True [],
     Field ''description'' String_f True False False [],
     Field ''customer'' (Nested_f [] []) False False True []]"

text \<open>
  A record that no load would accept (empty first name, no email syntax, long phone
  number), as storage may still hold it.
\<close>

definition sample_invalid_record :: pyval where
  "sample_invalid_record =
     ObjV [(''id'', IntV 8), (''first_name'', Str []), (''last_name'', Str ''Lee''),
           (''email'', Str ''bad-email''), (''password'', Str ''123''),
           (''phone'', Str ''000000000000000000000000000000''), (''address'', NoneV),
           (''created_at'', DateTimeV ''2024-01-01T00:00:00''),
           (''service_tickets'', ListV [])]"

definition sample_record :: pyval where
  "sample_record =
     ObjV [(''id'', IntV 7), (''first_name'', Str ''Ann''), (''last_name'', Str ''Lee''),
           (''email'', Str ''ann@example.com''), (''password'', Str ''$2b$salt$secret1''),
           (''phone'', NoneV), (''address'', Str ''1 Main St''),
           (''created_at'', DateTimeV ''2024-01-01T00:00:00''),
           (''service_tickets'',
              ListV [ObjV [(''id'', IntV 1), (''description'', Str ''oil change''),
                           (''customer'', IntV 7)]])]"


section \<open>Dictionaries and the normalisation loop\<close>

lemma fst_normalize_item [simp]: "fst (normalize_item kv) = fst kv"
  by (cases kv rule: normalize_item.cases) auto

lemma setitem_same: "getitem d k = Some v \<Longrightarrow> setitem d k v = d"
  by (induction d) (auto simp: getitem_def split: if_splits)

lemma setitem_append:
  "k \<notin> fst ` set xs \<Longrightarrow> setitem (xs @ (k, v) # ys) k v' = xs @ (k, v') # ys"
  by (induction xs) auto

lemma getitem_setitem: "getitem (setitem d k v) k' = (if k' = k then Some v else getitem d k')"
  by (induction d) (auto simp: getitem_def)

text \<open>
  The loop invariant: the items already visited are normalised in the heap object, the
  others are still as they were.
\<close>

lemma process_input_loop_append:
  assumes "h data = DictV (map normalize_item pre @ items)"
    and "distinct (map fst (pre @ items))"
  shows "process_input_loop items data h = h(data := DictV (map normalize_item (pre @ items)))"
  using assms
proof (induction items arbitrary: pre h)
  case Nil
  then show ?case by (auto simp: fun_eq_iff)
next
  case (Cons kv items)
  obtain k v where kv: "kv = (k, v)" by (cases kv)
  let ?h = "h(data := DictV (map normalize_item (pre @ [kv]) @ items))"
  have notin: "k \<notin> fst ` set (map normalize_item pre)"
    using Cons.prems(2) kv by (auto simp: image_image)
  have step: "(case v of
          Str s \<Rightarrow>
            (if k \<noteq> ''password''
             then (case h data of
                     DictV d \<Rightarrow> h(data := DictV (setitem d k (Str (strip s))))
                   | _ \<Rightarrow> h)
             else h)
        | _ \<Rightarrow> h) = ?h"
    using Cons.prems(1) kv setitem_append [OF notin]
    by (cases v) (auto simp: fun_upd_idem_iff)
  have "process_input_loop (kv # items) data h = process_input_loop items data ?h"
    using step kv by simp
  also have "\<dots> = ?h(data := DictV (map normalize_item ((pre @ [kv]) @ items)))"
    by (rule Cons.IH) (use Cons.prems(2) in auto)
  finally show ?case by simp
qed

lemma process_input_dict:
  assumes "h data = DictV d" and "wf_dict d"
  shows "process_input h data = (h(data := DictV (normalize d)), data)"
  using process_input_loop_append [of h data "[]" d] assms
  by (simp add: process_input_def wf_dict_def normalize_def)

lemma Load_dict:
  assumes "h data = DictV d" and "wf_dict d"
  shows "Load email_ok hashpw salt order sch h data =
    (load_processed email_ok hashpw salt order sch (DictV (normalize d)),
     h(data := DictV (normalize d)))"
  using process_input_dict [of h data d] assms by (simp add: Load_def)

lemma getitem_normalize_password: "getitem (normalize d) ''password'' = getitem d ''password''"
proof (induction d)
  case Nil
  show ?case by (simp add: normalize_def)
next
  case (Cons kv d)
  then show ?case
    by (cases kv rule: normalize_item.cases) (auto simp: normalize_def getitem_def)
qed

lemma normalize_fixed: "normalize d = d \<longleftrightarrow> (\<forall>kv \<in> set d. normalize_item kv = kv)"
  by (induction d) (auto simp: normalize_def)

section \<open>Deserialising the load fields\<close>

lemma getitem_normalize:
  "getitem (normalize d) k = map_option (\<lambda>v. snd (normalize_item (k, v))) (getitem d k)"
proof (induction d)
  case Nil
  show ?case by (simp add: normalize_def getitem_def)
next
  case (Cons kv d)
  then show ?case
    by (cases kv rule: normalize_item.cases) (auto simp: normalize_def getitem_def)
qed

lemma keys_normalize: "keys (normalize d) = keys d"
  by (simp add: keys_def normalize_def)

lemma deserialize_Inr: "deserialize eo f raw = Inr v \<Longrightarrow> v = raw"
proof (cases raw)
  case None
  then show "deserialize eo f raw = Inr v \<Longrightarrow> v = raw" by (simp split: if_splits)
next
  case (Some x)
  assume a: "deserialize eo f raw = Inr v"
  show ?thesis
  proof (cases "x = NoneV")
    case True
    with a Some show ?thesis by simp
  next
    case False
    then have d: "deserialize eo f (Some x) =
     (case deserialize_value eo (kind f) (validate f) x of
        Inl e \<Rightarrow> Inl e
      | Inr v' \<Rightarrow> Inr (Some v'))" by (cases x) simp_all
    have "deserialize_value eo (kind f) (validate f) x = Inr y \<Longrightarrow> y = x" for y
      by (cases "(eo, kind f, validate f, x)" rule: deserialize_value.cases)
         (auto simp: validated_def split: if_splits)
    with a Some d show ?thesis by (auto split: sum.splits)
  qed
qed

lemma deserialize_fields_errs_notin:
  "k \<notin> fname ` set fs \<Longrightarrow> map_of (fst (deserialize_fields eo fs d)) k = None"
  by (induction fs) (auto split: prod.splits sum.splits option.splits)

lemma deserialize_fields_ret_notin:
  "k \<notin> fname ` set fs \<Longrightarrow> getitem (snd (deserialize_fields eo fs d)) k = None"
  by (induction fs) (auto simp: getitem_def split: prod.splits sum.splits option.splits)

lemma deserialize_fields_errs_lookup:
  "distinct (map fname fs) \<Longrightarrow> f \<in> set fs \<Longrightarrow>
   map_of (fst (deserialize_fields eo fs d)) (fname f) =
     (case deserialize eo f (getitem d (fname f)) of Inl e \<Rightarrow> Some e | Inr v \<Rightarrow> None)"
proof (induction fs)
  case Nil
  then show ?case by simp
next
  case (Cons g fs)
  show ?case
  proof (cases "f = g")
    case True
    then have "fname f \<notin> fname ` set fs" using Cons.prems(1) by auto
    from deserialize_fields_errs_notin [OF this, of eo d] True show ?thesis
      by (auto split: prod.splits sum.splits option.splits)
  next
    case False
    then have "f \<in> set fs" and "fname g \<noteq> fname f" using Cons.prems by auto
    with Cons.IH Cons.prems(1) show ?thesis
      by (auto split: prod.splits sum.splits option.splits)
  qed
qed

lemma deserialize_fields_ret_lookup:
  "distinct (map fname fs) \<Longrightarrow> f \<in> set fs \<Longrightarrow>
   getitem (snd (deserialize_fields eo fs d)) (fname f) =
     (case deserialize eo f (getitem d (fname f)) of Inl e \<Rightarrow> None | Inr v \<Rightarrow> v)"
proof (induction fs)
  case Nil
  then show ?case by simp
next
  case (Cons g fs)
  show ?case
  proof (cases "f = g")
    case True
    then have "fname f \<notin> fname ` set fs" using Cons.prems(1) by auto
    from deserialize_fields_ret_notin [OF this, of eo d] True show ?thesis
      by (auto simp: getitem_def split: prod.splits sum.splits option.splits)
  next
    case False
    then have "f \<in> set fs" and "fname g \<noteq> fname f" using Cons.prems by auto
    with Cons.IH Cons.prems(1) show ?thesis
      by (auto simp: getitem_def split: prod.splits sum.splits option.splits)
  qed
qed

lemma deserialize_fields_errs_nil:
  "fst (deserialize_fields eo fs d) = [] \<longleftrightarrow>
   (\<forall>f \<in> set fs. \<exists>v. deserialize eo f (getitem d (fname f)) = Inr v)"
  by (induction fs) (auto split: prod.splits sum.splits option.splits)

lemma unknown_errors_field:
  "k \<in> fname ` set fs \<Longrightarrow> map_of (unknown_errors fs d) k = None"
  by (auto simp: unknown_errors_def map_of_eq_None_iff image_iff)

lemma schema_deserialize_dict:
  "schema_deserialize eo sch (DictV d) =
     (fst (deserialize_fields eo (load_fields sch) d) @ unknown_errors (load_fields sch) d,
      DictV (snd (deserialize_fields eo (load_fields sch) d)))"
  by (simp add: schema_deserialize_def split: prod.splits)

lemma schema_errors_lookup:
  assumes "distinct (map fname (load_fields sch))" and "f \<in> set (load_fields sch)"
  shows "map_of (fst (schema_deserialize eo sch (DictV d))) (fname f) =
     (case deserialize eo f (getitem d (fname f)) of Inl e \<Rightarrow> Some e | Inr v \<Rightarrow> None)"
proof -
  have "fname f \<in> fname ` set (load_fields sch)" using assms(2) by simp
  then have "map_of (unknown_errors (load_fields sch) d) (fname f) = None"
    by (rule unknown_errors_field)
  then show ?thesis
    using deserialize_fields_errs_lookup [OF assms, of eo d]
    by (simp add: schema_deserialize_dict map_add_def split: sum.splits)
qed

lemma hash_helper_not_validation: "hash_helper hp salt v \<noteq> Inl (ValidationError e)"
  by (cases v) (auto simp: hash_helper_def)

lemma hash_password_not_validation: "hash_password hp salt v \<noteq> Inl (ValidationError e)"
  using hash_helper_not_validation [of hp salt _ e]
  by (cases v) (auto simp: hash_password_def split: option.splits sum.splits)

lemma post_load_not_validation: "post_load hp salt order v \<noteq> Inl (ValidationError e)"
  using hash_password_not_validation [of hp salt _ e]
  by (cases order) (auto simp: post_load_def split: sum.splits)

lemma load_processed_validation:
  "load_processed eo hp salt order sch v = Inl (ValidationError e) \<longleftrightarrow>
     e = fst (schema_deserialize eo sch v) \<and> e \<noteq> []"
  using post_load_not_validation [of hp salt order _ e]
  by (auto simp: load_processed_def split: prod.splits)

lemma load_processed_Inr:
  "load_processed eo hp salt order sch v = Inr r \<Longrightarrow>
     fst (schema_deserialize eo sch v) = []
   \<and> post_load hp salt order (snd (schema_deserialize eo sch v)) = Inr r"
  by (auto simp: load_processed_def split: prod.splits if_splits)

lemma post_load_password:
  assumes "getitem ret ''password'' = Some (Str raw)" and "raw \<noteq> []"
  shows "post_load hp salt order (DictV ret) =
     Inr (ObjV (setitem ret ''password''
            (Str (if startswith raw ''$2'' then raw else hp raw salt))))"
  using assms
  by (cases order) (simp_all add: post_load_def hash_password_def hash_helper_def make_instance_def getitem_setitem)

lemma load_fields_customer:
  "load_fields (customer_schema t) =
    [Field ''first_name'' String_f True False False [Length (Some 1) (Some 50)],
     Field ''last_name'' String_f True False False [Length (Some 1) (Some 50)],
     Field ''email'' Email_f True False False [],
     Field ''password'' String_f True True False [Length (Some 6) None],
     Field ''phone'' String_f False False False [Length None (Some 20)],
     Field ''address'' String_f False False False [Length None (Some 200)]]"
  by (simp add: load_fields_def customer_schema_def CustomerSchema_def)

lemma load_fields_login:
  "load_fields login_schema =
    [Field ''email'' Email_f True False False [],
     Field ''password'' String_f True False False [Length (Some 6) None]]"
  by (simp add: load_fields_def login_schema_def LoginSchema_def)

lemma deserialize_string_field:
  "deserialize eo (Field n String_f rq lo dn vs) raw =
     (case raw of
        None \<Rightarrow> if rq then Inl [MissingRequired] else Inr None
      | Some NoneV \<Rightarrow> Inl [NullField]
      | Some (Str s) \<Rightarrow> (if run_validators vs s = [] then Inr (Some (Str s)) else Inl (run_validators vs s))
      | Some _ \<Rightarrow> Inl [InvalidString])"
  by (cases raw; cases "the raw") (auto simp: validated_def)

lemma deserialize_email_field:
  "deserialize eo (Field n Email_f rq lo dn vs) raw =
     (case raw of
        None \<Rightarrow> if rq then Inl [MissingRequired] else Inr None
      | Some NoneV \<Rightarrow> Inl [NullField]
      | Some (Str s) \<Rightarrow>
          (if eo s \<and> run_validators vs s = [] then Inr (Some (Str s))
           else Inl ((if eo s then [] else [InvalidEmail]) @ run_validators vs s))
      | Some _ \<Rightarrow> Inl [InvalidEmail])"
  by (cases raw; cases "the raw") (auto simp: validated_def)

lemma run_validators_min6 [simp]:
  "run_validators [Length (Some 6) None] s = (if length s < 6 then [TooShort 6] else [])"
  by (simp add: run_validators_def Length_call_def)

lemma run_validators_max [simp]:
  "run_validators [Length None (Some n)] s = (if n < length s then [TooLong n] else [])"
  by (simp add: run_validators_def Length_call_def)

lemma run_validators_nil [simp]: "run_validators [] s = []"
  by (simp add: run_validators_def)

section \<open>The hashing step\<close>

text \<open>
  Claim C3. The hashing step is idempotent: a string that already has the shape of a
  bcrypt hash (it starts with \<^verbatim>\<open>$2\<close>) is returned unchanged by \<^verbatim>\<open>_hash\<close>, whatever
  the salt drawn, and the hook \<^verbatim>\<open>hash_password\<close> leaves a record or dict whose
  password has that shape as it is. Applying the step to an already-hashed value
  therefore hashes nothing a second time.
\<close>

theorem hash_step_idempotent:
  assumes "startswith s ''$2''"
  shows "hash_helper hashpw salt (Str s) = Inr (Str s)
    \<and> (getitem a ''password'' = Some (Str s) \<longrightarrow>
           hash_password hashpw salt (ObjV a) = Inr (ObjV a)
         \<and> hash_password hashpw salt (DictV a) = Inr (DictV a))"
proof -
  have ne: "s \<noteq> []" using assms by (auto simp: startswith_def)
  have h: "hash_helper hashpw salt (Str s) = Inr (Str s)"
    using assms ne by (simp add: hash_helper_def)
  have "hash_password hashpw salt (ObjV a) = Inr (ObjV a)
         \<and> hash_password hashpw salt (DictV a) = Inr (DictV a)"
    if "getitem a ''password'' = Some (Str s)"
    using that h ne by (simp add: hash_password_def setitem_same)
  with h show ?thesis by blast
qed

theorem hash_step_idempotent_witness:
  "startswith ''$2b$12$abc'' ''$2''
   \<and> hash_helper sample_hashpw ''salt'' (Str ''$2b$12$abc'') = Inr (Str ''$2b$12$abc'')
   \<and> getitem [(''email'', Str ''a@b.com''), (''password'', Str ''$2b$12$abc'')] ''password''
       = Some (Str ''$2b$12$abc'')
   \<and> hash_password sample_hashpw ''salt''
        (ObjV [(''email'', Str ''a@b.com''), (''password'', Str ''$2b$12$abc'')])
       = Inr (ObjV [(''email'', Str ''a@b.com''), (''password'', Str ''$2b$12$abc'')])"
proof -
  have p: "startswith ''$2b$12$abc'' ''$2''" by (simp add: startswith_def)
  have g: "getitem [(''email'', Str ''a@b.com''), (''password'', Str ''$2b$12$abc'')] ''password''
       = Some (Str ''$2b$12$abc'')" by (simp add: getitem_def)
  show ?thesis
    using hash_step_idempotent [OF p, of sample_hashpw "''salt''"
        "[(''email'', Str ''a@b.com''), (''password'', Str ''$2b$12$abc'')]"] p g
    by blast
qed

section \<open>Loading a customer\<close>

lemma customer_password_field:
  "Field ''password'' String_f True True False [Length (Some 6) None] \<in> set (load_fields (customer_schema t))"
  by (simp add: load_fields_customer)

lemma customer_load_distinct: "distinct (map fname (load_fields (customer_schema t)))"
  by (simp add: load_fields_customer)

lemma deserialize_password_Inr:
  assumes "deserialize eo (Field ''password'' String_f True lo False [Length (Some 6) None]) raw = Inr v"
  shows "\<exists>s. raw = Some (Str s) \<and> 6 \<le> length s"
  using assms by (auto simp: deserialize_string_field split: option.splits pyval.splits if_splits)

text \<open>What a successful load of the customer schema says about the password.\<close>

lemma Load_customer_password:
  assumes "h data = DictV d" and "wf_dict d"
    and "fst (Load eo hashpw salt order (customer_schema t) h data) = Inr r"
  shows "\<exists>raw. getitem d ''password'' = Some (Str raw) \<and> 6 \<le> length raw
     \<and> get_value r ''password'' = Some (Str (if startswith raw ''$2'' then raw else hashpw raw salt))"
proof -
  let ?f = "Field ''password'' String_f True True False [Length (Some 6) None]"
  let ?sch = "customer_schema t"
  let ?nd = "normalize d"
  have lp: "load_processed eo hashpw salt order ?sch (DictV ?nd) = Inr r"
    using assms by (simp add: Load_dict)
  from load_processed_Inr [OF lp]
  have noerr: "fst (schema_deserialize eo ?sch (DictV ?nd)) = []"
    and post: "post_load hashpw salt order (snd (schema_deserialize eo ?sch (DictV ?nd))) = Inr r"
    by simp_all
  from noerr have "fst (deserialize_fields eo (load_fields ?sch) ?nd) = []"
    by (simp add: schema_deserialize_dict)
  then obtain v where v: "deserialize eo ?f (getitem ?nd (fname ?f)) = Inr v"
    using customer_password_field [of t] by (auto simp: deserialize_fields_errs_nil)
  then obtain raw where raw: "getitem ?nd ''password'' = Some (Str raw)" "6 \<le> length raw"
    using deserialize_password_Inr [of eo True "getitem ?nd ''password''" v] by auto
  have vr: "v = Some (Str raw)" using deserialize_Inr [OF v] raw by simp
  have "getitem (snd (deserialize_fields eo (load_fields ?sch) ?nd)) (fname ?f) = Some (Str raw)"
    using deserialize_fields_ret_lookup [OF customer_load_distinct customer_password_field, where eo = eo and d = ?nd] v vr
    by simp
  then have ret: "getitem (snd (deserialize_fields eo (load_fields ?sch) ?nd)) ''password'' = Some (Str raw)"
    by simp
  have ne: "raw \<noteq> []" using raw(2) by auto
  have "r = ObjV (setitem (snd (deserialize_fields eo (load_fields ?sch) ?nd)) ''password''
            (Str (if startswith raw ''$2'' then raw else hashpw raw salt)))"
    using post post_load_password [OF ret ne, of hashpw salt order]
    by (simp add: schema_deserialize_dict)
  then have "get_value r ''password'' = Some (Str (if startswith raw ''$2'' then raw else hashpw raw salt))"
    by (simp add: get_value_def getitem_setitem)
  with raw show ?thesis by (auto simp: getitem_normalize_password)
qed

text \<open>
  Claim C1, as stated: for every input that passes validation, the loaded record's
  password differs from the raw password. It fails for a raw password that starts with
  \<^verbatim>\<open>$2\<close>: the guard of \<^verbatim>\<open>_hash\<close> returns it as it is, so the record holds the text the
  client sent.

  Claim C1, amended: when the output of the hashing primitive carries the \<^verbatim>\<open>$2\<close>
  marker, every successful load of a well-formed input dict has a raw string password of
  at least 6 characters, the record's password is the raw value when that starts with
  \<^verbatim>\<open>$2\<close> and the hash of the raw value otherwise, and in the second case it differs
  from the raw password.
\<close>

theorem Load_password_hashed:
  assumes "\<forall>pw sl. startswith (hashpw pw sl) ''$2''"
    and "h data = DictV d" and "wf_dict d"
    and "fst (Load email_ok hashpw salt order (customer_schema ticket) h data) = Inr r"
  shows "\<exists>raw. getitem d ''password'' = Some (Str raw) \<and> 6 \<le> length raw
     \<and> get_value r ''password'' = Some (Str (if startswith raw ''$2'' then raw else hashpw raw salt))
     \<and> (\<not> startswith raw ''$2'' \<longrightarrow> get_value r ''password'' \<noteq> Some (Str raw))"
proof -
  from Load_customer_password [OF assms(2,3,4)] obtain raw where
    raw: "getitem d ''password'' = Some (Str raw)" "6 \<le> length raw"
      "get_value r ''password'' = Some (Str (if startswith raw ''$2'' then raw else hashpw raw salt))"
    by blast
  have "get_value r ''password'' \<noteq> Some (Str raw)" if "\<not> startswith raw ''$2''"
  proof
    assume "get_value r ''password'' = Some (Str raw)"
    with raw(3) that have "hashpw raw salt = raw" by simp
    moreover have "startswith (hashpw raw salt) ''$2''" using assms(1) by blast
    ultimately show False using that by simp
  qed
  with raw show ?thesis by blast
qed

theorem Load_password_plaintext_counterexample:
  "fst (Load sample_email_ok sample_hashpw ''salt'' HashThenInstance (customer_schema [])
          (sample_heap (DictV [(''first_name'', Str ''Ann''), (''last_name'', Str ''Lee''),
             (''email'', Str ''ann@example.com''), (''password'', Str ''$2secret'')])) 0)
   = Inr (ObjV [(''first_name'', Str ''Ann''), (''last_name'', Str ''Lee''),
             (''email'', Str ''ann@example.com''), (''password'', Str ''$2secret'')])"
  by code_simp

theorem Load_password_hashed_witness:
  "startswith (sample_hashpw ''secret1'' ''salt'') ''$2''
   \<and> wf_dict [(''first_name'', Str '' Ann ''), (''last_name'', Str ''Lee''),
         (''email'', Str ''ann@example.com''), (''password'', Str ''secret1'')]
   \<and> fst (Load sample_email_ok sample_hashpw ''salt'' HashThenInstance (customer_schema [])
          (sample_heap (DictV [(''first_name'', Str '' Ann ''), (''last_name'', Str ''Lee''),
             (''email'', Str ''ann@example.com''), (''password'', Str ''secret1'')])) 0)
      = Inr (ObjV [(''first_name'', Str ''Ann''), (''last_name'', Str ''Lee''),
             (''email'', Str ''ann@example.com''), (''password'', Str ''$2b$salt$secret1'')])
   \<and> get_value (ObjV [(''first_name'', Str ''Ann''), (''last_name'', Str ''Lee''),
             (''email'', Str ''ann@example.com''), (''password'', Str ''$2b$salt$secret1'')])
         ''password'' \<noteq> Some (Str ''secret1'')"
proof -
  let ?d = "[(''first_name'', Str '' Ann ''), (''last_name'', Str ''Lee''),
             (''email'', Str ''ann@example.com''), (''password'', Str ''secret1'')]"
  let ?r = "ObjV [(''first_name'', Str ''Ann''), (''last_name'', Str ''Lee''),
             (''email'', Str ''ann@example.com''), (''password'', Str ''$2b$salt$secret1'')]"
  have m: "\<forall>pw sl. startswith (sample_hashpw pw sl) ''$2''"
    by (simp add: startswith_def sample_hashpw_def)
  have hd: "sample_heap (DictV ?d) 0 = DictV ?d" by (simp add: sample_heap_def)
  have wf: "wf_dict ?d" by (simp add: wf_dict_def)
  have ld: "fst (Load sample_email_ok sample_hashpw ''salt'' HashThenInstance (customer_schema [])
          (sample_heap (DictV ?d)) 0) = Inr ?r"
    by code_simp
  have ns: "\<not> startswith ''secret1'' ''$2''" by (simp add: startswith_def)
  from Load_password_hashed [OF m hd wf ld] obtain raw where
    raw: "getitem ?d ''password'' = Some (Str raw)"
      "\<not> startswith raw ''$2'' \<longrightarrow> get_value ?r ''password'' \<noteq> Some (Str raw)"
    by blast
  from raw(1) have "raw = ''secret1''" by (simp add: getitem_def)
  with raw(2) ns have "get_value ?r ''password'' \<noteq> Some (Str ''secret1'')" by blast
  with m wf ld show ?thesis by blast
qed

section \<open>Normalisation before validation\<close>

lemma deserialize_password_field [simp]:
  "deserialize eo (Field ''password'' String_f True lo False [Length (Some 6) None]) (Some (Str p)) =
     (if length p < 6 then Inl [TooShort 6] else Inr (Some (Str p)))"
  by (simp add: validated_def)

lemma customer_password_errors:
  assumes "getitem d ''password'' = Some (Str p)"
  shows "map_of (fst (schema_deserialize eo (customer_schema t) (DictV (normalize d)))) ''password''
     = (if length p < 6 then Some [TooShort 6] else None)"
  using schema_errors_lookup [OF customer_load_distinct [of t] customer_password_field [of t],
      where eo = eo and d = "normalize d"]
    assms
  by (simp add: getitem_normalize_password validated_def)

text \<open>
  Claim C4. On a well-formed input dict the pre-load hook computes the specified
  normalisation, and the rest of the load by a schema instance without \<^verbatim>\<open>many\<close>
  (validation included) runs on the normalised dict: the keys are the same, every
  string value under a key other than \<^verbatim>\<open>password\<close>
  is replaced by its stripped form, every value that is not a string is unchanged, and
  the password entry is unchanged. The length check of the password is therefore on the
  raw value: a raw password shorter than 6 fails with the password named in the
  validation error, and a raw password of length 6 or more is never reported, whatever
  its stripped length.
\<close>

theorem Load_normalizes_then_validates:
  assumes "h data = DictV d" and "wf_dict d" and "\<not> many sch"
  shows "process_input h data = (h(data := DictV (normalize d)), data)
    \<and> fst (Load email_ok hashpw salt order sch h data)
        = load_processed email_ok hashpw salt order sch (DictV (normalize d))
    \<and> keys (normalize d) = keys d
    \<and> (\<forall>k s. getitem d k = Some (Str s) \<and> k \<noteq> ''password''
          \<longrightarrow> getitem (normalize d) k = Some (Str (strip s)))
    \<and> (\<forall>k v. getitem d k = Some v \<and> \<not> is_str v \<longrightarrow> getitem (normalize d) k = Some v)
    \<and> getitem (normalize d) ''password'' = getitem d ''password''
    \<and> (\<forall>p. getitem d ''password'' = Some (Str p) \<longrightarrow>
         (length p < 6 \<longrightarrow>
            (\<exists>errs. fst (Load email_ok hashpw salt order (customer_schema ticket) h data)
                      = Inl (ValidationError errs)
                  \<and> map_of errs ''password'' = Some [TooShort 6]))
       \<and> (6 \<le> length p \<longrightarrow>
            (\<forall>errs. fst (Load email_ok hashpw salt order (customer_schema ticket) h data)
                      = Inl (ValidationError errs)
                  \<longrightarrow> map_of errs ''password'' = None)))"
proof -
  have a: "process_input h data = (h(data := DictV (normalize d)), data)"
    using assms(1,2) by (rule process_input_dict)
  have b: "fst (Load email_ok hashpw salt order sch h data)
        = load_processed email_ok hashpw salt order sch (DictV (normalize d))" for sch
    using assms(1,2) by (simp add: Load_dict)
  have c: "keys (normalize d) = keys d" by (rule keys_normalize)
  have d1: "getitem (normalize d) k = Some (Str (strip s))"
    if "getitem d k = Some (Str s) \<and> k \<noteq> ''password''" for k s
    using that by (simp add: getitem_normalize)
  have d2: "getitem (normalize d) k = Some v" if "getitem d k = Some v \<and> \<not> is_str v" for k v
    using that by (cases v) (simp_all add: getitem_normalize)
  have e: "getitem (normalize d) ''password'' = getitem d ''password''"
    by (rule getitem_normalize_password)
  have f: "(length p < 6 \<longrightarrow>
            (\<exists>errs. fst (Load email_ok hashpw salt order (customer_schema ticket) h data)
                      = Inl (ValidationError errs)
                  \<and> map_of errs ''password'' = Some [TooShort 6]))
       \<and> (6 \<le> length p \<longrightarrow>
            (\<forall>errs. fst (Load email_ok hashpw salt order (customer_schema ticket) h data)
                      = Inl (ValidationError errs)
                  \<longrightarrow> map_of errs ''password'' = None))"
    if p: "getitem d ''password'' = Some (Str p)" for p
  proof -
    let ?errs = "fst (schema_deserialize email_ok (customer_schema ticket) (DictV (normalize d)))"
    have look: "map_of ?errs ''password'' = (if length p < 6 then Some [TooShort 6] else None)"
      using customer_password_errors [OF p] .
    have short: "\<exists>errs. fst (Load email_ok hashpw salt order (customer_schema ticket) h data)
                      = Inl (ValidationError errs)
                  \<and> map_of errs ''password'' = Some [TooShort 6]" if "length p < 6"
    proof -
      from look that have l: "map_of ?errs ''password'' = Some [TooShort 6]" by simp
      then have "?errs \<noteq> []" by auto
      then have "load_processed email_ok hashpw salt order (customer_schema ticket) (DictV (normalize d))
          = Inl (ValidationError ?errs)"
        by (simp add: load_processed_validation)
      with l b show ?thesis by auto
    qed
    have long: "map_of errs ''password'' = None"
      if "6 \<le> length p" and "fst (Load email_ok hashpw salt order (customer_schema ticket) h data)
                      = Inl (ValidationError errs)" for errs
    proof -
      from that(2) b have "errs = ?errs" by (simp add: load_processed_validation)
      with look that(1) show ?thesis by simp
    qed
    from short long show ?thesis by blast
  qed
  from a b c d1 d2 e f show ?thesis by blast
qed

theorem Load_normalizes_then_validates_witness:
  "wf_dict [(''first_name'', Str '' Ann ''), (''last_name'', Str ''Lee''),
       (''email'', Str ''ann@example.com ''), (''password'', Str '' 123 ''), (''phone'', IntV 5)]
   \<and> \<not> many (customer_schema [])
   \<and> getitem (normalize [(''first_name'', Str '' Ann ''), (''last_name'', Str ''Lee''),
       (''email'', Str ''ann@example.com ''), (''password'', Str '' 123 ''), (''phone'', IntV 5)])
       ''first_name'' = Some (Str ''Ann'')
   \<and> getitem (normalize [(''first_name'', Str '' Ann ''), (''last_name'', Str ''Lee''),
       (''email'', Str ''ann@example.com ''), (''password'', Str '' 123 ''), (''phone'', IntV 5)])
       ''phone'' = Some (IntV 5)
   \<and> getitem (normalize [(''first_name'', Str '' Ann ''), (''last_name'', Str ''Lee''),
       (''email'', Str ''ann@example.com ''), (''password'', Str '' 123 ''), (''phone'', IntV 5)])
       ''password'' = Some (Str '' 123 '')
   \<and> fst (Load sample_email_ok sample_hashpw ''salt'' HashThenInstance (customer_schema [])
         (sample_heap (DictV [(''first_name'', Str '' Ann ''), (''last_name'', Str ''Lee''),
            (''email'', Str ''ann@example.com ''), (''password'', Str '' 123 ''),
            (''phone'', IntV 5)])) 0)
       = Inl (ValidationError [(''password'', [TooShort 6]), (''phone'', [InvalidString])])"
proof -
  let ?d = "[(''first_name'', Str '' Ann ''), (''last_name'', Str ''Lee''),
       (''email'', Str ''ann@example.com ''), (''password'', Str '' 123 ''), (''phone'', IntV 5)]"
  let ?L = "fst (Load sample_email_ok sample_hashpw ''salt'' HashThenInstance (customer_schema [])
         (sample_heap (DictV ?d)) 0)"
  have hd: "sample_heap (DictV ?d) 0 = DictV ?d" by (simp add: sample_heap_def)
  have wf: "wf_dict ?d" by (simp add: wf_dict_def)
  have nm: "\<not> many (customer_schema [])" by (simp add: customer_schema_def)
  note T = Load_normalizes_then_validates [where h = "sample_heap (DictV ?d)" and data = 0
      and d = ?d and email_ok = sample_email_ok and hashpw = sample_hashpw and salt = "''salt''"
      and order = HashThenInstance and sch = "customer_schema []" and ticket = "[]", OF hd wf nm]
  from T have s: "\<forall>k s. getitem ?d k = Some (Str s) \<and> k \<noteq> ''password''
          \<longrightarrow> getitem (normalize ?d) k = Some (Str (strip s))" by blast
  have 1: "getitem (normalize ?d) ''first_name'' = Some (Str ''Ann'')"
  proof -
    have "getitem ?d ''first_name'' = Some (Str '' Ann '') \<and> ''first_name'' \<noteq> ''password''"
      by (simp add: getitem_def)
    with s have "getitem (normalize ?d) ''first_name'' = Some (Str (strip '' Ann ''))" by blast
    then show ?thesis by (simp add: strip_def isspace_def)
  qed
  from T have n: "\<forall>k v. getitem ?d k = Some v \<and> \<not> is_str v \<longrightarrow> getitem (normalize ?d) k = Some v"
    by blast
  have 2: "getitem (normalize ?d) ''phone'' = Some (IntV 5)"
  proof -
    have "getitem ?d ''phone'' = Some (IntV 5) \<and> \<not> is_str (IntV 5)" by (simp add: getitem_def)
    with n show ?thesis by blast
  qed
  from T have "getitem (normalize ?d) ''password'' = getitem ?d ''password''" by blast
  then have 3: "getitem (normalize ?d) ''password'' = Some (Str '' 123 '')"
    by (simp add: getitem_def)
  have 4: "?L = Inl (ValidationError [(''password'', [TooShort 6]), (''phone'', [InvalidString])])"
    by code_simp
  from wf nm 1 2 3 4 show ?thesis by blast
qed

text \<open>
  Claim C9. The normalisation is done in place: after a load by a schema instance
  without \<^verbatim>\<open>many\<close>, successful or not, the object the caller passed (the heap
  cell at the same address) holds the normalised
  dict, every other object is untouched, the caller's object differs from what was
  passed exactly when some entry had something to strip, and its password entry is
  still the raw value.
\<close>

theorem Load_mutates_input:
  assumes "h data = DictV d" and "wf_dict d" and "\<not> many sch"
  shows "snd (Load email_ok hashpw salt order sch h data) data = DictV (normalize d)
    \<and> (\<forall>a. a \<noteq> data \<longrightarrow> snd (Load email_ok hashpw salt order sch h data) a = h a)
    \<and> (snd (Load email_ok hashpw salt order sch h data) data \<noteq> h data
         \<longleftrightarrow> (\<exists>kv \<in> set d. normalize_item kv \<noteq> kv))
    \<and> getitem (normalize d) ''password'' = getitem d ''password''"
  using assms(1,2) by (simp add: Load_dict normalize_fixed getitem_normalize_password)

theorem Load_mutates_input_witness:
  "wf_dict [(''first_name'', Str '' Ann ''), (''email'', Str ''bad-email ''), (''password'', Str '' 123 ''), (''age'', IntV 3)]
   \<and> \<not> many (customer_schema [])
   \<and> snd (Load sample_email_ok sample_hashpw ''salt'' HashThenInstance (customer_schema [])
        (sample_heap (DictV [(''first_name'', Str '' Ann ''), (''email'', Str ''bad-email ''),
           (''password'', Str '' 123 ''), (''age'', IntV 3)])) 0) 0
      = DictV [(''first_name'', Str ''Ann''), (''email'', Str ''bad-email''),
           (''password'', Str '' 123 ''), (''age'', IntV 3)]
   \<and> snd (Load sample_email_ok sample_hashpw ''salt'' HashThenInstance (customer_schema [])
        (sample_heap (DictV [(''first_name'', Str '' Ann ''), (''email'', Str ''bad-email ''),
           (''password'', Str '' 123 ''), (''age'', IntV 3)])) 0) 0
      \<noteq> sample_heap (DictV [(''first_name'', Str '' Ann ''), (''email'', Str ''bad-email ''),
           (''password'', Str '' 123 ''), (''age'', IntV 3)]) 0"
proof -
  let ?d = "[(''first_name'', Str '' Ann ''), (''email'', Str ''bad-email ''),
           (''password'', Str '' 123 ''), (''age'', IntV 3)]"
  have hd: "sample_heap (DictV ?d) 0 = DictV ?d" by (simp add: sample_heap_def)
  have wf: "wf_dict ?d" by (simp add: wf_dict_def)
  have nm: "\<not> many (customer_schema [])" by (simp add: customer_schema_def)
  have n: "normalize ?d = [(''first_name'', Str ''Ann''), (''email'', Str ''bad-email''),
           (''password'', Str '' 123 ''), (''age'', IntV 3)]"
    by (simp add: normalize_def strip_def isspace_def)
  have ex: "\<exists>kv \<in> set ?d. normalize_item kv \<noteq> kv"
    by (simp add: strip_def isspace_def)
  from Load_mutates_input [where h = "sample_heap (DictV ?d)" and data = 0 and d = ?d
      and email_ok = sample_email_ok and hashpw = sample_hashpw and salt = "''salt''"
      and order = HashThenInstance and sch = "customer_schema []", OF hd wf nm]
  show ?thesis using wf nm n ex hd by simp
qed

section \<open>Validation errors of a load\<close>

lemma meets_cong: "(\<And>s. P s = Q s) \<Longrightarrow> meets rq P v = meets rq Q v"
  by (cases "(rq, P, v)" rule: meets.cases) simp_all

lemma deserialize_string_fails:
  "(\<exists>e. deserialize eo (Field n String_f rq lo dn vs) raw = Inl e) \<longleftrightarrow>
     \<not> meets rq (\<lambda>s. run_validators vs s = []) raw"
  by (cases raw; cases "the raw") (auto simp: validated_def)

lemma deserialize_email_fails:
  "(\<exists>e. deserialize eo (Field n Email_f rq lo dn vs) raw = Inl e) \<longleftrightarrow>
     \<not> meets rq (\<lambda>s. eo s \<and> run_validators vs s = []) raw"
  by (cases raw; cases "the raw") (auto simp: validated_def)

lemma customer_field_error:
  assumes "f \<in> set (load_fields (customer_schema t))"
    and "deserialize eo f (getitem nd (fname f)) = Inl e"
  shows "map_of (fst (schema_deserialize eo (customer_schema t) (DictV nd))) (fname f) = Some e"
  using schema_errors_lookup [OF customer_load_distinct assms(1), of eo nd] assms(2) by simp

lemma customer_constraint_error:
  assumes "\<not> spec_constraint eo name (getitem nd name)"
  shows "\<exists>e. map_of (fst (schema_deserialize eo (customer_schema t) (DictV nd))) name = Some e"
proof -
  let ?v = "getitem nd name"
  have str: "\<exists>e. map_of (fst (schema_deserialize eo (customer_schema t) (DictV nd))) name = Some e"
    if "Field name String_f rq lo False vs \<in> set (load_fields (customer_schema t))"
      and "\<not> meets rq (\<lambda>s. run_validators vs s = []) ?v" for rq lo vs
  proof -
    from that(2) obtain e where "deserialize eo (Field name String_f rq lo False vs) ?v = Inl e"
      using deserialize_string_fails [of eo name rq lo False vs ?v] by blast
    with customer_field_error [OF that(1), of eo nd e] show ?thesis by auto
  qed
  consider "name = ''first_name''" | "name = ''last_name''" | "name = ''email''"
    | "name = ''password''" | "name = ''phone''" | "name = ''address''"
    using assms by (auto simp: spec_constraint_def split: if_splits)
  then show ?thesis
  proof cases
    case 1
    have "meets True (\<lambda>s. run_validators [Length (Some 1) (Some 50)] s = []) ?v
        = meets True (\<lambda>s. 1 \<le> length s \<and> length s \<le> 50) ?v"
      by (rule meets_cong) (auto simp: run_validators_def Length_call_def Suc_le_eq)
    with assms 1 str [of True False "[Length (Some 1) (Some 50)]"] show ?thesis
      by (simp add: spec_constraint_def load_fields_customer)
  next
    case 2
    have "meets True (\<lambda>s. run_validators [Length (Some 1) (Some 50)] s = []) ?v
        = meets True (\<lambda>s. 1 \<le> length s \<and> length s \<le> 50) ?v"
      by (rule meets_cong) (auto simp: run_validators_def Length_call_def Suc_le_eq)
    with assms 2 str [of True False "[Length (Some 1) (Some 50)]"] show ?thesis
      by (simp add: spec_constraint_def load_fields_customer)
  next
    case 3
    have m: "\<not> meets True (\<lambda>s. eo s \<and> run_validators [] s = []) ?v"
      using assms 3 by (simp add: spec_constraint_def)
    then obtain e where "deserialize eo (Field ''email'' Email_f True False False []) (getitem nd ''email'') = Inl e"
      using deserialize_email_fails [of eo "''email''" True False False "[]" ?v] 3 by blast
    with customer_field_error [of "Field ''email'' Email_f True False False []" t eo nd e] 3
    show ?thesis by (simp add: load_fields_customer)
  next
    case 4
    have "meets True (\<lambda>s. run_validators [Length (Some 6) None] s = []) ?v
        = meets True (\<lambda>s. 6 \<le> length s) ?v"
      by (rule meets_cong) auto
    with assms 4 str [of True True "[Length (Some 6) None]"] show ?thesis
      by (simp add: spec_constraint_def load_fields_customer)
  next
    case 5
    have "meets False (\<lambda>s. run_validators [Length None (Some 20)] s = []) ?v
        = meets False (\<lambda>s. length s \<le> 20) ?v"
      by (rule meets_cong) auto
    with assms 5 str [of False False "[Length None (Some 20)]"] show ?thesis
      by (simp add: spec_constraint_def load_fields_customer)
  next
    case 6
    have "meets False (\<lambda>s. run_validators [Length None (Some 200)] s = []) ?v
        = meets False (\<lambda>s. length s \<le> 200) ?v"
      by (rule meets_cong) auto
    with assms 6 str [of False False "[Length None (Some 200)]"] show ?thesis
      by (simp add: spec_constraint_def load_fields_customer)
  qed
qed

lemma Load_example_errors:
  assumes "\<not> eo ''bad-email''"
  shows "load_processed eo hp salt order (customer_schema t)
      (DictV (normalize [(''email'', Str ''bad-email''), (''password'', Str ''123'')]))
    = Inl (ValidationError [(''first_name'', [MissingRequired]), (''last_name'', [MissingRequired]),
         (''email'', [InvalidEmail]), (''password'', [TooShort 6])])"
  using assms
  by (simp add: load_processed_def schema_deserialize_dict load_fields_customer normalize_def
      strip_def isspace_def getitem_def validated_def unknown_errors_def keys_def)

text \<open>
  Claim C5. Whenever a field constraint of the data model is violated on the normalised
  input (a required field omitted, a value that is not a string, a length or the email
  syntax out of bounds), the load fails with a validation error whose mapping names that
  field. On \<^verbatim>\<open>{"email": "bad-email", "password": "123"}\<close>, with an email check that
  refuses \<^verbatim>\<open>bad-email\<close>, the error names \<^verbatim>\<open>first_name\<close> and \<^verbatim>\<open>last_name\<close> as
  missing, \<^verbatim>\<open>email\<close> as badly formed and \<^verbatim>\<open>password\<close> as too short.
\<close>

theorem Load_reports_violations:
  assumes "h data = DictV d" and "wf_dict d"
  shows "(\<not> spec_constraint email_ok name (getitem (normalize d) name) \<longrightarrow>
           (\<exists>errs. fst (Load email_ok hashpw salt order (customer_schema ticket) h data)
                     = Inl (ValidationError errs)
                 \<and> name \<in> set (map fst errs)))
       \<and> (d = [(''email'', Str ''bad-email''), (''password'', Str ''123'')] \<and> \<not> email_ok ''bad-email'' \<longrightarrow>
            fst (Load email_ok hashpw salt order (customer_schema ticket) h data)
              = Inl (ValidationError
                  [(''first_name'', [MissingRequired]), (''last_name'', [MissingRequired]),
                   (''email'', [InvalidEmail]), (''password'', [TooShort 6])]))"
proof -
  let ?errs = "fst (schema_deserialize email_ok (customer_schema ticket) (DictV (normalize d)))"
  have b: "fst (Load email_ok hashpw salt order (customer_schema ticket) h data)
        = load_processed email_ok hashpw salt order (customer_schema ticket) (DictV (normalize d))"
    using assms by (simp add: Load_dict)
  have A: "\<exists>errs. fst (Load email_ok hashpw salt order (customer_schema ticket) h data)
                     = Inl (ValidationError errs) \<and> name \<in> set (map fst errs)"
    if "\<not> spec_constraint email_ok name (getitem (normalize d) name)"
  proof -
    from customer_constraint_error [OF that, of ticket]
    obtain e where e: "map_of ?errs name = Some e" by blast
    then have "?errs \<noteq> []" by auto
    then have "load_processed email_ok hashpw salt order (customer_schema ticket) (DictV (normalize d))
          = Inl (ValidationError ?errs)"
      by (simp add: load_processed_validation)
    moreover from e have "name \<in> set (map fst ?errs)"
      by (metis map_of_eq_None_iff option.distinct(1) set_map)
    ultimately show ?thesis using b by auto
  qed
  have B: "fst (Load email_ok hashpw salt order (customer_schema ticket) h data)
              = Inl (ValidationError
                  [(''first_name'', [MissingRequired]), (''last_name'', [MissingRequired]),
                   (''email'', [InvalidEmail]), (''password'', [TooShort 6])])"
    if "d = [(''email'', Str ''bad-email''), (''password'', Str ''123'')] \<and> \<not> email_ok ''bad-email''"
    using that b Load_example_errors [of email_ok hashpw salt order ticket] by simp
  from A B show ?thesis by blast
qed

theorem Load_reports_violations_witness:
  "wf_dict [(''email'', Str ''bad-email''), (''password'', Str ''123'')]
   \<and> \<not> sample_email_ok ''bad-email''
   \<and> \<not> spec_constraint sample_email_ok ''last_name''
         (getitem (normalize [(''email'', Str ''bad-email''), (''password'', Str ''123'')]) ''last_name'')
   \<and> fst (Load sample_email_ok sample_hashpw ''salt'' HashThenInstance (customer_schema [])
         (sample_heap (DictV [(''email'', Str ''bad-email''), (''password'', Str ''123'')])) 0)
       = Inl (ValidationError
            [(''first_name'', [MissingRequired]), (''last_name'', [MissingRequired]),
             (''email'', [InvalidEmail]), (''password'', [TooShort 6])])"
proof -
  let ?d = "[(''email'', Str ''bad-email''), (''password'', Str ''123'')]"
  have hd: "sample_heap (DictV ?d) 0 = DictV ?d" by (simp add: sample_heap_def)
  have wf: "wf_dict ?d" by (simp add: wf_dict_def)
  have bad: "\<not> sample_email_ok ''bad-email''" by (simp add: sample_email_ok_def)
  have v: "\<not> spec_constraint sample_email_ok ''last_name'' (getitem (normalize ?d) ''last_name'')"
    by (simp add: spec_constraint_def normalize_def getitem_def)
  note T = Load_reports_violations [where h = "sample_heap (DictV ?d)" and data = 0 and d = ?d
      and email_ok = sample_email_ok and hashpw = sample_hashpw and salt = "''salt''"
      and order = HashThenInstance and ticket = "[]" and name = "''last_name''", OF hd wf]
  from T bad have "fst (Load sample_email_ok sample_hashpw ''salt'' HashThenInstance (customer_schema [])
         (sample_heap (DictV ?d)) 0)
       = Inl (ValidationError
            [(''first_name'', [MissingRequired]), (''last_name'', [MissingRequired]),
             (''email'', [InvalidEmail]), (''password'', [TooShort 6])])"
    by blast
  with wf bad v show ?thesis by blast
qed

section \<open>The login schema\<close>

lemma unknown_errors_nil: "unknown_errors fs d = [] \<longleftrightarrow> set (keys d) \<subseteq> fname ` set fs"
  by (auto simp: unknown_errors_def filter_empty_conv)

lemma login_deserialize_fields:
  "deserialize_fields eo (load_fields login_schema) d =
     (case deserialize eo (Field ''email'' Email_f True False False []) (getitem d ''email'') of
        Inl e \<Rightarrow>
          (case deserialize eo (Field ''password'' String_f True False False [Length (Some 6) None]) (getitem d ''password'') of
             Inl e' \<Rightarrow> ([(''email'', e), (''password'', e')], [])
           | Inr None \<Rightarrow> ([(''email'', e)], [])
           | Inr (Some p) \<Rightarrow> ([(''email'', e)], [(''password'', p)]))
      | Inr None \<Rightarrow>
          (case deserialize eo (Field ''password'' String_f True False False [Length (Some 6) None]) (getitem d ''password'') of
             Inl e' \<Rightarrow> ([(''password'', e')], [])
           | Inr None \<Rightarrow> ([], [])
           | Inr (Some p) \<Rightarrow> ([], [(''password'', p)]))
      | Inr (Some m) \<Rightarrow>
          (case deserialize eo (Field ''password'' String_f True False False [Length (Some 6) None]) (getitem d ''password'') of
             Inl e' \<Rightarrow> ([(''password'', e')], [(''email'', m)])
           | Inr None \<Rightarrow> ([], [(''email'', m)])
           | Inr (Some p) \<Rightarrow> ([], [(''email'', m), (''password'', p)])))"
  by (simp add: load_fields_login split: sum.splits option.splits)

lemma login_accepts_iff:
  "schema_load eo login_schema (DictV d) = Inr r \<longleftrightarrow>
     (\<exists>e p. getitem d ''email'' = Some (Str e) \<and> eo e
        \<and> getitem d ''password'' = Some (Str p) \<and> 6 \<le> length p
        \<and> set (keys d) \<subseteq> {''email'', ''password''}
        \<and> r = DictV [(''email'', Str e), (''password'', Str p)])"
proof -
  have names: "fname ` set (load_fields login_schema) = {''email'', ''password''}"
    by (auto simp: load_fields_login)
  show ?thesis
    unfolding schema_load_def schema_deserialize_dict login_deserialize_fields
      deserialize_string_field deserialize_email_field
    by (auto simp: unknown_errors_nil names split: option.splits pyval.splits if_splits)
qed

text \<open>
  Claim C6. The login schema validates exactly \<^verbatim>\<open>email\<close> and \<^verbatim>\<open>password\<close>, and
  nothing of the customer schema: a dict is accepted if and only if its email is a
  string of valid syntax, its password is a string of at least 6 characters and it has
  no other key, and the result is those two values as they came. Every rejection is a
  validation error. With an email check that admits \<^verbatim>\<open>a@b.com\<close> it accepts
  \<^verbatim>\<open>{"email": "a@b.com", "password": "abcdef"}\<close>, and it rejects
  \<^verbatim>\<open>{"email": "a@b.com", "password": "abc"}\<close> with the password named as too short.
\<close>

theorem login_schema_validates:
  "(schema_load email_ok login_schema (DictV d) = Inr r \<longleftrightarrow>
     (\<exists>e p. getitem d ''email'' = Some (Str e) \<and> email_ok e
        \<and> getitem d ''password'' = Some (Str p) \<and> 6 \<le> length p
        \<and> set (keys d) \<subseteq> {''email'', ''password''}
        \<and> r = DictV [(''email'', Str e), (''password'', Str p)]))
   \<and> (\<forall>x. schema_load email_ok login_schema v \<noteq> Inl (Raised x))
   \<and> (email_ok ''a@b.com'' \<longrightarrow>
        schema_load email_ok login_schema
          (DictV [(''email'', Str ''a@b.com''), (''password'', Str ''abcdef'')])
        = Inr (DictV [(''email'', Str ''a@b.com''), (''password'', Str ''abcdef'')]))
   \<and> (\<exists>errs. schema_load email_ok login_schema
          (DictV [(''email'', Str ''a@b.com''), (''password'', Str ''abc'')])
        = Inl (ValidationError errs) \<and> map_of errs ''password'' = Some [TooShort 6])"
proof -
  have 1: "schema_load email_ok login_schema (DictV d) = Inr r \<longleftrightarrow>
     (\<exists>e p. getitem d ''email'' = Some (Str e) \<and> email_ok e
        \<and> getitem d ''password'' = Some (Str p) \<and> 6 \<le> length p
        \<and> set (keys d) \<subseteq> {''email'', ''password''}
        \<and> r = DictV [(''email'', Str e), (''password'', Str p)])"
    by (rule login_accepts_iff)
  have 2: "\<forall>x. schema_load email_ok login_schema v \<noteq> Inl (Raised x)"
    by (simp add: schema_load_def split: prod.splits)
  have 3: "schema_load email_ok login_schema
          (DictV [(''email'', Str ''a@b.com''), (''password'', Str ''abcdef'')])
        = Inr (DictV [(''email'', Str ''a@b.com''), (''password'', Str ''abcdef'')])"
    if "email_ok ''a@b.com''"
    using that by (simp add: login_accepts_iff getitem_def keys_def)
  have 4: "\<exists>errs. schema_load email_ok login_schema
          (DictV [(''email'', Str ''a@b.com''), (''password'', Str ''abc'')])
        = Inl (ValidationError errs) \<and> map_of errs ''password'' = Some [TooShort 6]"
    by (cases "email_ok ''a@b.com''")
       (simp_all add: schema_load_def schema_deserialize_dict load_fields_login getitem_def
          validated_def unknown_errors_def keys_def)
  from 1 2 3 4 show ?thesis by blast
qed

theorem login_schema_validates_witness:
  "sample_email_ok ''a@b.com''
   \<and> schema_load sample_email_ok login_schema
        (DictV [(''email'', Str ''a@b.com''), (''password'', Str ''abcdef'')])
      = Inr (DictV [(''email'', Str ''a@b.com''), (''password'', Str ''abcdef'')])
   \<and> schema_load sample_email_ok login_schema
        (DictV [(''email'', Str ''a@b.com''), (''password'', Str ''abc'')])
      = Inl (ValidationError [(''password'', [TooShort 6])])"
proof -
  have ok: "sample_email_ok ''a@b.com''" by (simp add: sample_email_ok_def)
  note T = login_schema_validates [where email_ok = sample_email_ok]
  from T ok have a: "schema_load sample_email_ok login_schema
        (DictV [(''email'', Str ''a@b.com''), (''password'', Str ''abcdef'')])
      = Inr (DictV [(''email'', Str ''a@b.com''), (''password'', Str ''abcdef'')])"
    by blast
  have r: "schema_load sample_email_ok login_schema
        (DictV [(''email'', Str ''a@b.com''), (''password'', Str ''abc'')])
      = Inl (ValidationError [(''password'', [TooShort 6])])"
    by code_simp
  from ok a r show ?thesis by blast
qed

section \<open>Dumping a record\<close>

lemma dump_fields_keys:
  "dump_fields c fs ex obj = Inr d \<Longrightarrow> x \<in> set (keys d) \<Longrightarrow>
     x \<notin> set ex \<and> (\<exists>f \<in> set fs. fname f = x \<and> \<not> load_only f)"
proof (induction fs arbitrary: d)
  case Nil
  then show ?case by (simp add: keys_def)
next
  case (Cons f fs)
  obtain n k rq lo dn vs where f: "f = Field n k rq lo dn vs" by (cases f)
  show ?case
  proof (cases "lo \<or> n \<in> set ex \<or> get_value obj n = None")
    case True
    then have "dump_fields c fs ex obj = Inr d" using Cons.prems f by (auto split: if_splits)
    from Cons.IH [OF this Cons.prems(2)] show ?thesis by auto
  next
    case False
    then obtain v v' d' where *: "get_value obj n = Some v" "serialize c k v = Inr v'"
      "dump_fields c fs ex obj = Inr d'" "d = (n, v') # d'"
      using Cons.prems f by (auto split: sum.splits)
    show ?thesis
    proof (cases "x = n")
      case True
      with False f show ?thesis by simp
    next
      case ne: False
      then have "x \<in> set (keys d')" using Cons.prems(2) *(4) by (simp add: keys_def)
      from Cons.IH [OF *(3) this] show ?thesis by auto
    qed
  qed
qed

lemma dump_fields_exclude_more:
  "dump_fields c fs ex obj = Inr d \<Longrightarrow> set ex \<subseteq> set ex' \<Longrightarrow>
     dump_fields c fs ex' obj = Inr (filter (\<lambda>kv. fst kv \<notin> set ex') d)"
proof (induction fs arbitrary: d)
  case Nil
  then show ?case by simp
next
  case (Cons f fs)
  obtain n k rq lo dn vs where f: "f = Field n k rq lo dn vs" by (cases f)
  show ?case
  proof (cases "lo \<or> n \<in> set ex \<or> get_value obj n = None")
    case True
    then have "dump_fields c fs ex obj = Inr d" using Cons.prems f by (auto split: if_splits)
    from Cons.IH [OF this Cons.prems(2)] True Cons.prems(2) f show ?thesis by auto
  next
    case False
    then obtain v v' d' where *: "get_value obj n = Some v" "serialize c k v = Inr v'"
      "dump_fields c fs ex obj = Inr d'" "d = (n, v') # d'"
      using Cons.prems f by (auto split: sum.splits)
    from Cons.IH [OF *(3) Cons.prems(2)] * False f show ?thesis by auto
  qed
qed

lemma dump_fields_lookup:
  "dump_fields c fs ex obj = Inr d \<Longrightarrow> distinct (map fname fs) \<Longrightarrow>
   Field n k rq False dn vs \<in> set fs \<Longrightarrow> n \<notin> set ex \<Longrightarrow> get_value obj n = Some v \<Longrightarrow>
     \<exists>v'. serialize c k v = Inr v' \<and> getitem d n = Some v'"
proof (induction fs arbitrary: d)
  case Nil
  then show ?case by simp
next
  case (Cons f fs)
  obtain n0 k0 rq0 lo0 dn0 vs0 where f: "f = Field n0 k0 rq0 lo0 dn0 vs0" by (cases f)
  show ?case
  proof (cases "f = Field n k rq False dn vs")
    case True
    with Cons.prems f show ?thesis
      by (auto simp: getitem_def split: sum.splits)
  next
    case False
    then have mem: "Field n k rq False dn vs \<in> set fs" using Cons.prems(3) by auto
    then have ne: "n0 \<noteq> n" using Cons.prems(2) f by force
    have dist: "distinct (map fname fs)" using Cons.prems(2) by simp
    show ?thesis
    proof (cases "lo0 \<or> n0 \<in> set ex \<or> get_value obj n0 = None")
      case True
      then have "dump_fields c fs ex obj = Inr d" using Cons.prems(1) f by (auto split: if_splits)
      from Cons.IH [OF this dist mem Cons.prems(4,5)] show ?thesis .
    next
      case False
      then obtain w w' d' where *: "get_value obj n0 = Some w" "serialize c k0 w = Inr w'"
        "dump_fields c fs ex obj = Inr d'" "d = (n0, w') # d'"
        using Cons.prems(1) f by (auto split: sum.splits)
      from Cons.IH [OF *(3) dist mem Cons.prems(4,5)] *(4) ne show ?thesis
        by (auto simp: getitem_def)
    qed
  qed
qed

lemma conforms_dump:
  "conforms_value k v \<Longrightarrow> \<exists>v'. serialize c k v = Inr v'"
  "conforms_fields fs ex obj \<Longrightarrow> \<exists>d. dump_fields c fs ex obj = Inr d"
  "conforms_list fs ex xs \<Longrightarrow> \<exists>ds. dump_list c fs ex xs = Inr ds"
  apply (induction c k v and c fs ex obj and c fs ex xs rule: serialize_dump_fields_dump_list.induct)
  apply (auto split: option.splits)
  subgoal for coerce name k lo fs ex obj x2 v'
    by (drule_tac x = x2 in meta_spec, drule_tac x = v' in meta_spec) auto
  done

lemma dump_no_validation:
  "serialize c k v \<noteq> Inl (ValidationError e)"
  "dump_fields c fs ex obj \<noteq> Inl (ValidationError e)"
  "dump_list c fs ex xs \<noteq> Inl (ValidationError e)"
  by (induction c k v and c fs ex obj and c fs ex xs rule: serialize_dump_fields_dump_list.induct)
     (auto split: option.splits sum.splits)


lemma dump_list_keys:
  "dump_list c fs ex xs = Inr ds \<Longrightarrow> y \<in> set ds \<Longrightarrow>
     \<exists>d. y = DictV d \<and> (\<forall>x \<in> set (keys d). x \<notin> set ex \<and> (\<exists>f \<in> set fs. fname f = x \<and> \<not> load_only f))"
proof (induction xs arbitrary: ds)
  case Nil
  then show ?case by simp
next
  case (Cons x xs)
  then obtain d ds' where *: "dump_fields c fs ex x = Inr d" "dump_list c fs ex xs = Inr ds'"
    "ds = DictV d # ds'"
    by (auto split: sum.splits)
  show ?case
  proof (cases "y = DictV d")
    case True
    with dump_fields_keys [OF *(1)] show ?thesis by blast
  next
    case False
    then have "y \<in> set ds'" using Cons.prems(2) *(3) by simp
    from Cons.IH [OF *(2) this] show ?thesis .
  qed
qed

lemma customer_password_load_only:
  "f \<in> set (CustomerSchema t) \<Longrightarrow> fname f = ''password'' \<Longrightarrow> load_only f"
  by (auto simp: CustomerSchema_def)

lemma customer_fields_distinct: "distinct (map fname (CustomerSchema t))"
  by (simp add: CustomerSchema_def)

lemma Dump_single:
  "\<not> many sch \<Longrightarrow> Dump c sch r =
     (case dump_fields c (declared_fields sch) (exclude sch) r of Inl e \<Rightarrow> Inl e | Inr d \<Rightarrow> Inr (DictV d))"
  by (simp add: Dump_def)

lemma Dump_many_list:
  "many sch \<Longrightarrow> Dump c sch (ListV rs) =
     (case dump_list c (declared_fields sch) (exclude sch) rs of Inl e \<Rightarrow> Inl e | Inr ds \<Rightarrow> Inr (ListV ds))"
  by (simp add: Dump_def)

lemma customer_dump_no_password:
  assumes "dump_fields c (CustomerSchema t) ex r = Inr d"
  shows "''password'' \<notin> set (keys d)"
proof
  assume "''password'' \<in> set (keys d)"
  from dump_fields_keys [OF assms this] obtain f where
    "f \<in> set (CustomerSchema t)" "fname f = ''password''" "\<not> load_only f" by blast
  with customer_password_load_only show False by blast
qed

lemma customer_dump_list_no_password:
  assumes "dump_list c (CustomerSchema t) ex rs = Inr ds" and "y \<in> set ds"
  shows "\<exists>d. y = DictV d \<and> ''password'' \<notin> set (keys d)"
proof -
  from dump_list_keys [OF assms] obtain d where d: "y = DictV d"
    "\<forall>x \<in> set (keys d). x \<notin> set ex \<and> (\<exists>f \<in> set (CustomerSchema t). fname f = x \<and> \<not> load_only f)"
    by blast
  have "''password'' \<notin> set (keys d)"
  proof
    assume "''password'' \<in> set (keys d)"
    with d(2) obtain f where "f \<in> set (CustomerSchema t)" "fname f = ''password''" "\<not> load_only f"
      by blast
    with customer_password_load_only show False by blast
  qed
  with d(1) show ?thesis by blast
qed

text \<open>
  Claim C2. The output of a dump has no \<^verbatim>\<open>password\<close> key, for every object, in the
  full mode (\<^verbatim>\<open>customer_schema\<close>) and in the simple mode
  (\<^verbatim>\<open>customer_simple_schema\<close>), and in each element of the output of the two
  \<^verbatim>\<open>many\<close> instances on a list of objects.
\<close>

theorem Dump_omits_password:
  "(Dump coerce (customer_schema ticket) r = Inr out \<longrightarrow>
      (\<exists>d. out = DictV d \<and> ''password'' \<notin> set (keys d)))
   \<and> (Dump coerce (customer_simple_schema ticket) r = Inr out' \<longrightarrow>
      (\<exists>d. out' = DictV d \<and> ''password'' \<notin> set (keys d)))
   \<and> (Dump coerce (customers_schema ticket) (ListV rs) = Inr outs \<longrightarrow>
      (\<exists>ds. outs = ListV ds \<and> (\<forall>y \<in> set ds. \<exists>d. y = DictV d \<and> ''password'' \<notin> set (keys d))))
   \<and> (Dump coerce (customers_simple_schema ticket) (ListV rs) = Inr outs' \<longrightarrow>
      (\<exists>ds. outs' = ListV ds \<and> (\<forall>y \<in> set ds. \<exists>d. y = DictV d \<and> ''password'' \<notin> set (keys d))))"
proof -
  have 1: "\<exists>d. out = DictV d \<and> ''password'' \<notin> set (keys d)"
    if "Dump coerce (customer_schema ticket) r = Inr out"
    using that customer_dump_no_password [of coerce ticket "[]" r]
    by (auto simp: Dump_single customer_schema_def split: sum.splits)
  have 2: "\<exists>d. out' = DictV d \<and> ''password'' \<notin> set (keys d)"
    if "Dump coerce (customer_simple_schema ticket) r = Inr out'"
    using that customer_dump_no_password [of coerce ticket "[''service_tickets'', ''password'']" r]
    by (auto simp: Dump_single customer_simple_schema_def split: sum.splits)
  have 3: "\<exists>ds. outs = ListV ds \<and> (\<forall>y \<in> set ds. \<exists>d. y = DictV d \<and> ''password'' \<notin> set (keys d))"
    if "Dump coerce (customers_schema ticket) (ListV rs) = Inr outs"
    using that customer_dump_list_no_password [of coerce ticket "[]" rs]
    by (auto simp: Dump_many_list customers_schema_def split: sum.splits)
  have 4: "\<exists>ds. outs' = ListV ds \<and> (\<forall>y \<in> set ds. \<exists>d. y = DictV d \<and> ''password'' \<notin> set (keys d))"
    if "Dump coerce (customers_simple_schema ticket) (ListV rs) = Inr outs'"
    using that customer_dump_list_no_password [of coerce ticket "[''service_tickets'', ''password'']" rs]
    by (auto simp: Dump_many_list customers_simple_schema_def split: sum.splits)
  from 1 2 3 4 show ?thesis by blast
qed

theorem Dump_omits_password_witness:
  "Dump sample_coerce (customer_schema sample_ticket) sample_record
     = Inr (DictV [(''first_name'', Str ''Ann''), (''last_name'', Str ''Lee''),
          (''email'', Str ''ann@example.com''), (''phone'', NoneV),
          (''address'', Str ''1 Main St''), (''id'', IntV 7),
          (''created_at'', Str ''2024-01-01T00:00:00''),
          (''service_tickets'',
             ListV [DictV [(''id'', IntV 1), (''description'', Str ''oil change'')]])])
   \<and> ''password'' \<notin> set (keys [(''first_name'', Str ''Ann''), (''last_name'', Str ''Lee''),
          (''email'', Str ''ann@example.com''), (''phone'', NoneV),
          (''address'', Str ''1 Main St''), (''id'', IntV 7),
          (''created_at'', Str ''2024-01-01T00:00:00''),
          (''service_tickets'',
             ListV [DictV [(''id'', IntV 1), (''description'', Str ''oil change'')]])])"
proof -
  let ?out = "[(''first_name'', Str ''Ann''), (''last_name'', Str ''Lee''),
          (''email'', Str ''ann@example.com''), (''phone'', NoneV),
          (''address'', Str ''1 Main St''), (''id'', IntV 7),
          (''created_at'', Str ''2024-01-01T00:00:00''),
          (''service_tickets'',
             ListV [DictV [(''id'', IntV 1), (''description'', Str ''oil change'')]])]"
  have d: "Dump sample_coerce (customer_schema sample_ticket) sample_record = Inr (DictV ?out)"
    by code_simp
  from Dump_omits_password [of sample_coerce sample_ticket sample_record "DictV ?out"] d
  have "\<exists>d. DictV ?out = DictV d \<and> ''password'' \<notin> set (keys d)" by blast
  then have "''password'' \<notin> set (keys ?out)" by simp
  with d show ?thesis by blast
qed

lemma customer_tickets_field:
  "Field ''service_tickets'' (Nested_f t [''customer'']) False False True [] \<in> set (CustomerSchema t)"
  by (simp add: CustomerSchema_def)

lemma filter_simple_exclude:
  assumes "''password'' \<notin> set (keys d)"
  shows "filter (\<lambda>kv. fst kv \<notin> set [''service_tickets'', ''password'']) d
       = filter (\<lambda>kv. fst kv \<noteq> ''service_tickets'') d"
  using assms by (intro filter_cong) (force simp: keys_def)+

lemma simple_dump_of_full:
  assumes "dump_fields c (CustomerSchema t) [] r = Inr d"
  shows "dump_fields c (CustomerSchema t) [''service_tickets'', ''password''] r
       = Inr (filter (\<lambda>kv. fst kv \<noteq> ''service_tickets'') d)"
  using dump_fields_exclude_more [OF assms, of "[''service_tickets'', ''password'']"]
    filter_simple_exclude [OF customer_dump_no_password [OF assms]]
  by simp

text \<open>
  Claim C7. Whenever the full dump of an object succeeds, the simple dump is the full
  output without its \<^verbatim>\<open>service_tickets\<close> item, and nothing else differs. For a
  well-formed record with a list of tickets the full dump succeeds and has the item
  \<^verbatim>\<open>service_tickets\<close>: the list of the dumps of the tickets under the ticket schema
  without \<^verbatim>\<open>customer\<close>, so that no nested ticket has a \<^verbatim>\<open>customer\<close> key; the simple
  output has no \<^verbatim>\<open>service_tickets\<close> key.
\<close>

theorem Dump_modes_differ_by_tickets:
  "(Dump coerce (customer_schema ticket) r = Inr (DictV out) \<longrightarrow>
      Dump coerce (customer_simple_schema ticket) r
        = Inr (DictV (filter (\<lambda>kv. fst kv \<noteq> ''service_tickets'') out)))
   \<and> (well_formed ticket r \<and> get_value r ''service_tickets'' = Some (ListV ts) \<longrightarrow>
        (\<exists>out ds. Dump coerce (customer_schema ticket) r = Inr (DictV out)
           \<and> getitem out ''service_tickets'' = Some (ListV ds)
           \<and> dump_list coerce ticket [''customer''] ts = Inr ds
           \<and> (\<forall>y \<in> set ds. \<exists>d. y = DictV d \<and> ''customer'' \<notin> set (keys d))
           \<and> Dump coerce (customer_simple_schema ticket) r
               = Inr (DictV (filter (\<lambda>kv. fst kv \<noteq> ''service_tickets'') out))
           \<and> ''service_tickets'' \<notin> set (keys (filter (\<lambda>kv. fst kv \<noteq> ''service_tickets'') out))))"
proof -
  have full: "Dump coerce (customer_schema ticket) r =
      (case dump_fields coerce (CustomerSchema ticket) [] r of Inl e \<Rightarrow> Inl e | Inr d \<Rightarrow> Inr (DictV d))"
    by (simp add: Dump_single customer_schema_def)
  have simple: "Dump coerce (customer_simple_schema ticket) r =
      (case dump_fields coerce (CustomerSchema ticket) [''service_tickets'', ''password''] r of
         Inl e \<Rightarrow> Inl e | Inr d \<Rightarrow> Inr (DictV d))"
    by (simp add: Dump_single customer_simple_schema_def)
  have A: "Dump coerce (customer_simple_schema ticket) r
        = Inr (DictV (filter (\<lambda>kv. fst kv \<noteq> ''service_tickets'') out))"
    if "Dump coerce (customer_schema ticket) r = Inr (DictV out)" for out
  proof -
    from that full have "dump_fields coerce (CustomerSchema ticket) [] r = Inr out"
      by (auto split: sum.splits)
    from simple_dump_of_full [OF this] simple show ?thesis by simp
  qed
  have B: "\<exists>out ds. Dump coerce (customer_schema ticket) r = Inr (DictV out)
           \<and> getitem out ''service_tickets'' = Some (ListV ds)
           \<and> dump_list coerce ticket [''customer''] ts = Inr ds
           \<and> (\<forall>y \<in> set ds. \<exists>d. y = DictV d \<and> ''customer'' \<notin> set (keys d))
           \<and> Dump coerce (customer_simple_schema ticket) r
               = Inr (DictV (filter (\<lambda>kv. fst kv \<noteq> ''service_tickets'') out))
           \<and> ''service_tickets'' \<notin> set (keys (filter (\<lambda>kv. fst kv \<noteq> ''service_tickets'') out))"
    if "well_formed ticket r \<and> get_value r ''service_tickets'' = Some (ListV ts)"
  proof -
    from that have "conforms_fields (CustomerSchema ticket) [] r"
      by (auto simp: well_formed_def split: pyval.splits)
    from conforms_dump(2) [OF this, of coerce] obtain out where
      out: "dump_fields coerce (CustomerSchema ticket) [] r = Inr out" by blast
    then have D: "Dump coerce (customer_schema ticket) r = Inr (DictV out)" using full by simp
    from dump_fields_lookup [OF out customer_fields_distinct customer_tickets_field, of "ListV ts"] that
    obtain v' where v': "serialize coerce (Nested_f ticket [''customer'']) (ListV ts) = Inr v'"
      "getitem out ''service_tickets'' = Some v'" by auto
    from v'(1) obtain ds where ds: "dump_list coerce ticket [''customer''] ts = Inr ds" "v' = ListV ds"
      by (auto split: sum.splits)
    have shape: "\<forall>y \<in> set ds. \<exists>d. y = DictV d \<and> ''customer'' \<notin> set (keys d)"
    proof
      fix y assume "y \<in> set ds"
      from dump_list_keys [OF ds(1) this] show "\<exists>d. y = DictV d \<and> ''customer'' \<notin> set (keys d)"
        by auto
    qed
    have "''service_tickets'' \<notin> set (keys (filter (\<lambda>kv. fst kv \<noteq> ''service_tickets'') out))"
      by (auto simp: keys_def)
    with D A [OF D] v'(2) ds shape show ?thesis by blast
  qed
  from A B show ?thesis by blast
qed

theorem Dump_modes_differ_by_tickets_witness:
  "well_formed sample_ticket sample_record
   \<and> get_value sample_record ''service_tickets''
       = Some (ListV [ObjV [(''id'', IntV 1), (''description'', Str ''oil change''),
                            (''customer'', IntV 7)]])
   \<and> Dump sample_coerce (customer_schema sample_ticket) sample_record
       = Inr (DictV [(''first_name'', Str ''Ann''), (''last_name'', Str ''Lee''),
            (''email'', Str ''ann@example.com''), (''phone'', NoneV),
            (''address'', Str ''1 Main St''), (''id'', IntV 7),
            (''created_at'', Str ''2024-01-01T00:00:00''),
            (''service_tickets'',
               ListV [DictV [(''id'', IntV 1), (''description'', Str ''oil change'')]])])
   \<and> Dump sample_coerce (customer_simple_schema sample_ticket) sample_record
       = Inr (DictV [(''first_name'', Str ''Ann''), (''last_name'', Str ''Lee''),
            (''email'', Str ''ann@example.com''), (''phone'', NoneV),
            (''address'', Str ''1 Main St''), (''id'', IntV 7),
            (''created_at'', Str ''2024-01-01T00:00:00'')])"
proof -
  let ?ts = "[ObjV [(''id'', IntV 1), (''description'', Str ''oil change''), (''customer'', IntV 7)]]"
  let ?out = "[(''first_name'', Str ''Ann''), (''last_name'', Str ''Lee''),
            (''email'', Str ''ann@example.com''), (''phone'', NoneV),
            (''address'', Str ''1 Main St''), (''id'', IntV 7),
            (''created_at'', Str ''2024-01-01T00:00:00''),
            (''service_tickets'',
               ListV [DictV [(''id'', IntV 1), (''description'', Str ''oil change'')]])]"
  have wf: "well_formed sample_ticket sample_record" by code_simp
  have gv: "get_value sample_record ''service_tickets'' = Some (ListV ?ts)" by code_simp
  have full: "Dump sample_coerce (customer_schema sample_ticket) sample_record = Inr (DictV ?out)"
    by code_simp
  from Dump_modes_differ_by_tickets [of sample_coerce sample_ticket sample_record ?out ?ts] full
  have "Dump sample_coerce (customer_simple_schema sample_ticket) sample_record
        = Inr (DictV (filter (\<lambda>kv. fst kv \<noteq> ''service_tickets'') ?out))"
    by blast
  then have simple: "Dump sample_coerce (customer_simple_schema sample_ticket) sample_record
       = Inr (DictV [(''first_name'', Str ''Ann''), (''last_name'', Str ''Lee''),
            (''email'', Str ''ann@example.com''), (''phone'', NoneV),
            (''address'', Str ''1 Main St''), (''id'', IntV 7),
            (''created_at'', Str ''2024-01-01T00:00:00'')])"
    by simp
  from wf gv full simple show ?thesis by blast
qed

text \<open>
  Claim C8. A dump of a well-formed record never fails, in the full and in the simple
  mode, for one record and for a list of records; and no dump of any object under any
  schema raises a validation error.
\<close>

theorem Dump_never_fails:
  "(well_formed ticket r \<longrightarrow>
       (\<exists>out. Dump coerce (customer_schema ticket) r = Inr (DictV out))
     \<and> (\<exists>out. Dump coerce (customer_simple_schema ticket) r = Inr (DictV out)))
   \<and> ((\<forall>r \<in> set rs. well_formed ticket r) \<longrightarrow>
       (\<exists>outs. Dump coerce (customers_schema ticket) (ListV rs) = Inr (ListV outs))
     \<and> (\<exists>outs. Dump coerce (customers_simple_schema ticket) (ListV rs) = Inr (ListV outs)))
   \<and> (\<forall>e. Dump coerce sch obj \<noteq> Inl (ValidationError e))"
proof -
  have conf: "conforms_fields (CustomerSchema ticket) [] x" if "well_formed ticket x" for x
    using that by (auto simp: well_formed_def split: pyval.splits)
  have full: "\<exists>out. Dump coerce (customer_schema ticket) x = Inr (DictV out)"
    if "well_formed ticket x" for x
    using conforms_dump(2) [OF conf [OF that], of coerce]
    by (auto simp: Dump_single customer_schema_def)
  have 1: "(\<exists>out. Dump coerce (customer_schema ticket) r = Inr (DictV out))
     \<and> (\<exists>out. Dump coerce (customer_simple_schema ticket) r = Inr (DictV out))"
    if "well_formed ticket r"
  proof -
    from full [OF that] obtain out where
      out: "Dump coerce (customer_schema ticket) r = Inr (DictV out)" by blast
    then have "dump_fields coerce (CustomerSchema ticket) [] r = Inr out"
      by (auto simp: Dump_single customer_schema_def split: sum.splits)
    from simple_dump_of_full [OF this]
    have "Dump coerce (customer_simple_schema ticket) r
        = Inr (DictV (filter (\<lambda>kv. fst kv \<noteq> ''service_tickets'') out))"
      by (simp add: Dump_single customer_simple_schema_def)
    with out show ?thesis by blast
  qed
  have lst: "\<exists>ds. dump_list coerce (CustomerSchema ticket) ex xs = Inr ds"
    if "\<forall>x \<in> set xs. \<exists>d. dump_fields coerce (CustomerSchema ticket) ex x = Inr d" for xs ex
    using that by (induction xs) auto
  have 2: "(\<exists>outs. Dump coerce (customers_schema ticket) (ListV rs) = Inr (ListV outs))
     \<and> (\<exists>outs. Dump coerce (customers_simple_schema ticket) (ListV rs) = Inr (ListV outs))"
    if all: "\<forall>r \<in> set rs. well_formed ticket r"
  proof -
    have a: "\<forall>x \<in> set rs. \<exists>d. dump_fields coerce (CustomerSchema ticket) [] x = Inr d"
      using all conforms_dump(2) [OF conf, of _ coerce] by blast
    then have b: "\<forall>x \<in> set rs. \<exists>d. dump_fields coerce (CustomerSchema ticket)
        [''service_tickets'', ''password''] x = Inr d"
      using simple_dump_of_full by blast
    from lst [OF a] lst [OF b] show ?thesis
      by (auto simp: Dump_many_list customers_schema_def customers_simple_schema_def)
  qed
  have 3: "\<forall>e. Dump coerce sch obj \<noteq> Inl (ValidationError e)"
    using dump_no_validation(1,2) [of coerce]
    by (auto simp: Dump_def split: sum.splits)
  from 1 2 3 show ?thesis by blast
qed

theorem Dump_never_fails_witness:
  "well_formed sample_ticket sample_invalid_record
   \<and> Dump sample_coerce (customer_schema sample_ticket) sample_invalid_record
       = Inr (DictV [(''first_name'', Str []), (''last_name'', Str ''Lee''),
            (''email'', Str ''bad-email''),
            (''phone'', Str ''000000000000000000000000000000''),
            (''address'', NoneV), (''id'', IntV 8),
            (''created_at'', Str ''2024-01-01T00:00:00''),
            (''service_tickets'', ListV [])])"
proof -
  have wf: "well_formed sample_ticket sample_invalid_record" by code_simp
  from Dump_never_fails [of sample_ticket sample_invalid_record sample_coerce] wf
  obtain out where
    out: "Dump sample_coerce (customer_schema sample_ticket) sample_invalid_record = Inr (DictV out)"
    by blast
  have "Dump sample_coerce (customer_schema sample_ticket) sample_invalid_record
       = Inr (DictV [(''first_name'', Str []), (''last_name'', Str ''Lee''),
            (''email'', Str ''bad-email''),
            (''phone'', Str ''000000000000000000000000000000''),
            (''address'', NoneV), (''id'', IntV 8),
            (''created_at'', Str ''2024-01-01T00:00:00''),
            (''service_tickets'', ListV [])])"
    by code_simp
  with wf out show ?thesis by blast
qed

end
